theory Spec2Isabelle
  imports Main "HOL-Library.Multiset"
begin

section \<open>Naive datetimes\<close>

text \<open>
  The scheduler works on naive \<^verbatim>\<open>datetime\<close> values. A naive datetime is identified with
  the number of microseconds since midnight of day 0 of the proleptic Gregorian calendar, so
  that the day number of a value is Python's \<^verbatim>\<open>toordinal()\<close> (0001-01-01 is day 1) and a
  \<^verbatim>\<open>date\<close> is that day number. Comparison of datetimes is comparison of the counts and
  \<^verbatim>\<open>timedelta\<close> arithmetic is addition, which raises \<^verbatim>\<open>OverflowError\<close> outside
  0001-01-01T00:00:00 .. 9999-12-31T23:59:59.999999.
\<close>

type_synonym datetime = int
type_synonym date = int

datatype error = TypeError | ValueError | OverflowError

definition US_PER_MINUTE :: int where
  "US_PER_MINUTE = 60000000"

definition US_PER_HOUR :: int where
  "US_PER_HOUR = 3600000000"

definition US_PER_DAY :: int where
  "US_PER_DAY = 86400000000"

definition MIN_DT :: datetime where
  "MIN_DT = US_PER_DAY"

definition MAX_DT :: datetime where
  "MAX_DT = 3652060 * US_PER_DAY - 1"

definition date_of :: "datetime \<Rightarrow> date" where
  "date_of t = t div US_PER_DAY"

definition hour_of :: "datetime \<Rightarrow> int" where
  "hour_of t = (t mod US_PER_DAY) div US_PER_HOUR"

definition timedelta_days :: "int \<Rightarrow> int" where
  "timedelta_days d = d * US_PER_DAY"

definition timedelta_minutes :: "int \<Rightarrow> int" where
  "timedelta_minutes m = m * US_PER_MINUTE"

definition add_timedelta :: "datetime \<Rightarrow> int \<Rightarrow> error + datetime" where
  "add_timedelta t delta =
     (if MIN_DT \<le> t + delta \<and> t + delta \<le> MAX_DT then Inr (t + delta)
      else Inl OverflowError)"

text \<open>\<^verbatim>\<open>dt.replace(hour=h, minute=0, second=0, microsecond=0)\<close>\<close>

definition replace_hour :: "datetime \<Rightarrow> int \<Rightarrow> error + datetime" where
  "replace_hour t h =
     (if 0 \<le> h \<and> h \<le> 23 then Inr (date_of t * US_PER_DAY + h * US_PER_HOUR)
      else Inl ValueError)"

text \<open>\<^verbatim>\<open>datetime.combine(d, datetime.min.time())\<close>\<close>

definition combine_midnight :: "date \<Rightarrow> datetime" where
  "combine_midnight d = d * US_PER_DAY"

text \<open>
  The day of the month (\<^verbatim>\<open>dt.day\<close>), computed from the day number the way the
  standard library's \<^verbatim>\<open>_ord2ymd\<close> does.
\<close>

definition DAYS_IN_MONTH :: "int list" where
  "DAYS_IN_MONTH = [-1, 31, 28, 31, 30, 31, 30, 31, 31, 30, 31, 30, 31]"

definition DAYS_BEFORE_MONTH :: "int list" where
  "DAYS_BEFORE_MONTH = [-1, 0, 31, 59, 90, 120, 151, 181, 212, 243, 273, 304, 334]"

definition ord2day :: "int \<Rightarrow> int" where
  "ord2day ordinal =
     (let n = ordinal - 1;
          n400 = n div 146097; n = n mod 146097;
          n100 = n div 36524; n = n mod 36524;
          n4 = n div 1461; n = n mod 1461;
          n1 = n div 365; n = n mod 365
      in if n1 = 4 \<or> n100 = 4 then 31
         else
           let leapyear = (n1 = 3 \<and> (n4 \<noteq> 24 \<or> n100 = 3));
               month = (n + 50) div 32;
               preceding = DAYS_BEFORE_MONTH ! nat month
                           + (if month > 2 \<and> leapyear then 1 else 0)
           in if preceding > n
              then n - (preceding - (DAYS_IN_MONTH ! nat (month - 1)
                                      + (if month - 1 = 2 \<and> leapyear then 1 else 0))) + 1
              else n - preceding + 1)"

definition day_of :: "datetime \<Rightarrow> int" where
  "day_of t = ord2day (date_of t)"

section \<open>Data model (models.py)\<close>

record PastTask =
  past_title :: string
  past_subject :: "string option"
  time_spent_minutes :: int
  past_difficulty :: "int option"

record TodoTask =
  title :: string
  subject :: "string option"
  deadline :: datetime
  estimated_time_minutes :: int
  difficulty :: "int option"
  priority :: "int option"
  exam_or_not :: bool

record FixedEvent =
  ev_title :: string
  ev_start :: datetime
  ev_end :: datetime

record ParsedInput =
  past_tasks :: "PastTask list"
  todos :: "TodoTask list"
  fixed_events :: "FixedEvent list"

record ScheduledBlock =
  blk_title :: string
  blk_start :: datetime
  blk_end :: datetime
  kind :: string

section \<open>Configuration constants (config.py)\<close>

text \<open>
  Modelled from the spec: \<^verbatim>\<open>config.py\<close> is not among the sources. The spec gives the slot
  granularity as 30 minutes and the daily window of its scenarios as 19:00--23:00, which are
  also the defaults of the form in \<^verbatim>\<open>app.py\<close>.
\<close>

definition BLOCK_MINUTES :: int where
  "BLOCK_MINUTES = 30"

definition DEFAULT_STUDY_START_HOUR :: int where
  "DEFAULT_STUDY_START_HOUR = 19"

definition DEFAULT_STUDY_END_HOUR :: int where
  "DEFAULT_STUDY_END_HOUR = 23"

section \<open>The slot generator\<close>

text \<open>
  A generator is modelled by the list of the values it yields together with the exception
  that ends it, if any. The generator has no effect of its own, so a consumer that stops
  early simply ignores the rest of the list.
\<close>

function day_slots :: "datetime \<Rightarrow> int \<Rightarrow> datetime list \<times> error option" where
  "day_slots day study_end_hour =
     (if hour_of day < study_end_hour then
        (if MIN_DT \<le> day + timedelta_minutes BLOCK_MINUTES
            \<and> day + timedelta_minutes BLOCK_MINUTES \<le> MAX_DT
         then (case day_slots (day + timedelta_minutes BLOCK_MINUTES) study_end_hour of
                 (ys, e) \<Rightarrow> (day # ys, e))
         else ([day], Some OverflowError))
      else ([], None))"
  by pat_completeness auto
termination
  by (relation "measure (\<lambda>(day, h). nat (MAX_DT - day))")
     (auto simp: timedelta_minutes_def BLOCK_MINUTES_def US_PER_MINUTE_def)

declare day_slots.simps [simp del]

fun iter_days :: "datetime \<Rightarrow> int \<Rightarrow> int \<Rightarrow> int \<Rightarrow> nat \<Rightarrow> datetime list \<times> error option" where
  "iter_days start_dt study_start_hour study_end_hour d 0 = ([], None)"
| "iter_days start_dt study_start_hour study_end_hour d (Suc n) =
     (case add_timedelta start_dt (timedelta_days d) of
        Inl e \<Rightarrow> ([], Some e)
      | Inr t \<Rightarrow>
         (case replace_hour t study_start_hour of
            Inl e \<Rightarrow> ([], Some e)
          | Inr day \<Rightarrow>
             (case day_slots day study_end_hour of
                (ys, Some e) \<Rightarrow> (ys, Some e)
              | (ys, None) \<Rightarrow>
                 (case iter_days start_dt study_start_hour study_end_hour (d + 1) n of
                    (zs, e) \<Rightarrow> (ys @ zs, e)))))"

definition iter_study_slots :: "datetime \<Rightarrow> int \<Rightarrow> int \<Rightarrow> int \<Rightarrow> datetime list \<times> error option" where
  "iter_study_slots start_dt days study_start_hour study_end_hour =
     iter_days start_dt study_start_hour study_end_hour 0 (nat days)"

section \<open>The allocation engine\<close>

text \<open>The local variables of \<^verbatim>\<open>build_schedule\<close> that stay fixed during the allocation.\<close>

record config =
  start_base :: datetime
  days :: int
  study_start_hour :: int
  study_end_hour :: int
  max_minutes_per_day :: "int option"
  cram_or_not :: bool
  now :: datetime

text \<open>The variables the slot loop updates.\<close>

record alloc =
  blocks :: "ScheduledBlock list"
  day_todo_minutes :: "date \<rightharpoonup> int"
  remaining :: int

definition is_free :: "ScheduledBlock list \<Rightarrow> datetime \<Rightarrow> datetime \<Rightarrow> bool" where
  "is_free bs start end' = list_all (\<lambda>b. end' \<le> blk_start b \<or> start \<ge> blk_end b) bs"

fun cram_scan :: "ScheduledBlock list \<Rightarrow> datetime list \<Rightarrow> error option \<Rightarrow> int \<Rightarrow> error + int" where
  "cram_scan bs [] gen_err num_of_minutes =
     (case gen_err of None \<Rightarrow> Inr num_of_minutes | Some e \<Rightarrow> Inl e)"
| "cram_scan bs (slot # rest) gen_err num_of_minutes =
     (case add_timedelta slot (timedelta_minutes BLOCK_MINUTES) of
        Inl e \<Rightarrow> Inl e
      | Inr slot_end \<Rightarrow>
          cram_scan bs rest gen_err
            (if \<not> is_free bs slot slot_end then num_of_minutes - BLOCK_MINUTES
             else num_of_minutes))"

text \<open>
  The cram-mode test of one candidate slot: \<open>Inr True\<close> when the loop \<^verbatim>\<open>continue\<close>s
  at the end of the test.
\<close>

definition cram_num_of_minutes :: "config \<Rightarrow> TodoTask \<Rightarrow> ScheduledBlock list \<Rightarrow> datetime \<Rightarrow> error + int" where
  "cram_num_of_minutes cfg todo bs slot_start =
     (let num_of_days = day_of (deadline todo) - day_of slot_start - 1
      in case max_minutes_per_day cfg of
           None \<Rightarrow> Inl TypeError
         | Some m \<Rightarrow>
            (let num_of_minutes = num_of_days * m
                   + max (study_end_hour cfg - hour_of slot_start) 0 * 60
                   + max (hour_of (deadline todo) - study_start_hour cfg) 0 * 60
             in case iter_study_slots slot_start (num_of_days + 2)
                       (study_start_hour cfg) (study_end_hour cfg) of
                  (slots, gen_err) \<Rightarrow> cram_scan bs slots gen_err num_of_minutes))"

definition cram_defer :: "config \<Rightarrow> TodoTask \<Rightarrow> ScheduledBlock list \<Rightarrow> datetime \<Rightarrow> error + bool" where
  "cram_defer cfg todo bs slot_start =
     (if cram_or_not cfg \<and> exam_or_not todo then
        (case cram_num_of_minutes cfg todo bs slot_start of
           Inl e \<Rightarrow> Inl e
         | Inr num_of_minutes \<Rightarrow> Inr (num_of_minutes > estimated_time_minutes todo))
      else Inr False)"

definition over_cap :: "config \<Rightarrow> (date \<rightharpoonup> int) \<Rightarrow> datetime \<Rightarrow> bool" where
  "over_cap cfg dtm slot_start =
     (case max_minutes_per_day cfg of
        None \<Rightarrow> False
      | Some m \<Rightarrow>
         (let used = (case dtm (date_of slot_start) of None \<Rightarrow> 0 | Some u \<Rightarrow> u)
          in used + BLOCK_MINUTES > m))"

definition commit :: "config \<Rightarrow> TodoTask \<Rightarrow> datetime \<Rightarrow> datetime \<Rightarrow> alloc \<Rightarrow> alloc" where
  "commit cfg todo slot_start slot_end st =
     \<lparr> blocks = blocks st @
         [\<lparr> blk_title = title todo, blk_start = slot_start, blk_end = slot_end,
            kind = ''todo'' \<rparr>],
       day_todo_minutes =
         (case max_minutes_per_day cfg of
            None \<Rightarrow> day_todo_minutes st
          | Some m \<Rightarrow>
             (day_todo_minutes st)(date_of slot_start \<mapsto>
                (case day_todo_minutes st (date_of slot_start) of None \<Rightarrow> 0 | Some u \<Rightarrow> u)
                + BLOCK_MINUTES)),
       remaining = remaining st - BLOCK_MINUTES \<rparr>"

fun slot_loop :: "config \<Rightarrow> TodoTask \<Rightarrow> datetime list \<Rightarrow> error option \<Rightarrow> alloc \<Rightarrow> error + alloc" where
  "slot_loop cfg todo [] gen_err st =
     (case gen_err of None \<Rightarrow> Inr st | Some e \<Rightarrow> Inl e)"
| "slot_loop cfg todo (slot_start # rest) gen_err st =
     (if slot_start \<ge> deadline todo then Inr st
      else if remaining st \<le> 0 then Inr st
      else
        (case cram_defer cfg todo (blocks st) slot_start of
           Inl e \<Rightarrow> Inl e
         | Inr True \<Rightarrow> slot_loop cfg todo rest gen_err st
         | Inr False \<Rightarrow>
            (case add_timedelta slot_start (timedelta_minutes BLOCK_MINUTES) of
               Inl e \<Rightarrow> Inl e
             | Inr slot_end \<Rightarrow>
                (if over_cap cfg (day_todo_minutes st) slot_start
                 then slot_loop cfg todo rest gen_err st
                 else if is_free (blocks st) slot_start slot_end
                 then slot_loop cfg todo rest gen_err (commit cfg todo slot_start slot_end st)
                 else slot_loop cfg todo rest gen_err st))))"

text \<open>One round of \<^verbatim>\<open>for todo in todos\<close>.\<close>

definition process_todo ::
  "config \<Rightarrow> TodoTask \<Rightarrow> ScheduledBlock list \<times> (date \<rightharpoonup> int)
     \<Rightarrow> error + ScheduledBlock list \<times> (date \<rightharpoonup> int)" where
  "process_todo cfg todo s =
     (if deadline todo \<le> now cfg then Inr s
      else
        (case iter_study_slots (start_base cfg) (days cfg)
                (study_start_hour cfg) (study_end_hour cfg) of
           (slots, gen_err) \<Rightarrow>
             (case slot_loop cfg todo slots gen_err
                     \<lparr> blocks = fst s, day_todo_minutes = snd s,
                       remaining = estimated_time_minutes todo \<rparr> of
                Inl e \<Rightarrow> Inl e
              | Inr st \<Rightarrow> Inr (blocks st, day_todo_minutes st))))"

fun todo_loop ::
  "config \<Rightarrow> TodoTask list \<Rightarrow> ScheduledBlock list \<times> (date \<rightharpoonup> int)
     \<Rightarrow> error + ScheduledBlock list \<times> (date \<rightharpoonup> int)" where
  "todo_loop cfg [] s = Inr s"
| "todo_loop cfg (todo # rest) s =
     (case process_todo cfg todo s of
        Inl e \<Rightarrow> Inl e
      | Inr s' \<Rightarrow> todo_loop cfg rest s')"

text \<open>
  The duration normalisation. The field is a required \<^verbatim>\<open>int\<close> of the model class, so of
  the source's test \<^verbatim>\<open>is None or <= 0\<close> only the second part can hold.
\<close>

definition normalize :: "TodoTask \<Rightarrow> TodoTask" where
  "normalize t =
     (if estimated_time_minutes t \<le> 0 then t\<lparr>estimated_time_minutes := 120\<rparr> else t)"

text \<open>
  \<^verbatim>\<open>sorted(todos, key=lambda x: x.priority)\<close>: the sort is stable, and comparing
  \<^verbatim>\<open>None\<close> with anything raises \<^verbatim>\<open>TypeError\<close>. A list of two or more elements has every
  key compared at least once; a shorter list has no key compared.
\<close>

definition priority_key :: "TodoTask \<Rightarrow> int" where
  "priority_key t = (case priority t of None \<Rightarrow> 0 | Some p \<Rightarrow> p)"

definition sort_by_priority :: "TodoTask list \<Rightarrow> error + TodoTask list" where
  "sort_by_priority ts =
     (if length ts \<ge> 2 \<and> list_ex (\<lambda>t. priority t = None) ts then Inl TypeError
      else Inr (sort_key priority_key ts))"

definition order_todos :: "TodoTask list \<Rightarrow> error + TodoTask list" where
  "order_todos ts = sort_by_priority (sort_key deadline ts)"

definition fixed_block :: "FixedEvent \<Rightarrow> ScheduledBlock" where
  "fixed_block e =
     \<lparr> blk_title = ev_title e, blk_start = ev_start e, blk_end = ev_end e, kind = ''fixed'' \<rparr>"

definition effective_date :: "date option \<Rightarrow> datetime \<Rightarrow> date" where
  "effective_date start_date now' =
     (case start_date of None \<Rightarrow> date_of now' | Some d \<Rightarrow> max d (date_of now'))"

definition resolve_start_hour :: "int option \<Rightarrow> int" where
  "resolve_start_hour sh = (case sh of None \<Rightarrow> DEFAULT_STUDY_START_HOUR | Some h \<Rightarrow> h)"

definition resolve_end_hour :: "int option \<Rightarrow> int option \<Rightarrow> int" where
  "resolve_end_hour sh eh =
     (let s = resolve_start_hour sh;
          e = (case eh of None \<Rightarrow> DEFAULT_STUDY_END_HOUR | Some h \<Rightarrow> h)
      in if e \<le> s then min (s + 1) 23 else e)"

definition make_config ::
  "int \<Rightarrow> date option \<Rightarrow> int option \<Rightarrow> int option \<Rightarrow> int option \<Rightarrow> bool \<Rightarrow> datetime \<Rightarrow> config" where
  "make_config days' start_date max_hours_per_day sh eh cram now' =
     \<lparr> start_base = combine_midnight (effective_date start_date now'),
       days = days',
       study_start_hour = resolve_start_hour sh,
       study_end_hour = resolve_end_hour sh eh,
       max_minutes_per_day = map_option (\<lambda>h. h * 60) max_hours_per_day,
       cram_or_not = cram,
       now = now' \<rparr>"

text \<open>
  \<^verbatim>\<open>build_schedule\<close>. The wall clock read by \<^verbatim>\<open>datetime.now()\<close> at the start of the call
  is the last argument.
\<close>

definition build_schedule ::
  "ParsedInput \<Rightarrow> int \<Rightarrow> date option \<Rightarrow> int option \<Rightarrow> int option \<Rightarrow> int option \<Rightarrow> bool
     \<Rightarrow> datetime \<Rightarrow> error + ScheduledBlock list" where
  "build_schedule parsed days' start_date max_hours_per_day sh eh cram now' =
     (let cfg = make_config days' start_date max_hours_per_day sh eh cram now';
          ts = map normalize (todos parsed);
          blocks0 = map fixed_block (fixed_events parsed)
      in case order_todos ts of
           Inl e \<Rightarrow> Inl e
         | Inr ordered \<Rightarrow>
            (case todo_loop cfg ordered (blocks0, Map.empty) of
               Inl e \<Rightarrow> Inl e
             | Inr s \<Rightarrow> Inr (sort_key blk_start (fst s))))"

section \<open>Notions used in the statements\<close>

text \<open>The datetime at hour \<open>h\<close> and minute \<open>m\<close> of the day with number \<open>d\<close>.\<close>

definition at_day :: "date \<Rightarrow> int \<Rightarrow> int \<Rightarrow> datetime" where
  "at_day d h m = d * US_PER_DAY + h * US_PER_HOUR + m * US_PER_MINUTE"

text \<open>Example data: day 739313 is 2025-03-03, a Monday.\<close>

definition ex_task :: "string \<Rightarrow> datetime \<Rightarrow> int \<Rightarrow> int option \<Rightarrow> bool \<Rightarrow> TodoTask" where
  "ex_task name due est prio exam =
     \<lparr> title = name, subject = None, deadline = due, estimated_time_minutes = est,
       difficulty = None, priority = prio, exam_or_not = exam \<rparr>"

definition ex_input :: "TodoTask list \<Rightarrow> FixedEvent list \<Rightarrow> ParsedInput" where
  "ex_input ts evs = \<lparr> past_tasks = [], todos = ts, fixed_events = evs \<rparr>"

text \<open>
  A block placed for a task at one of the given slot starts: what the slot loop appends.
\<close>

definition placed :: "TodoTask \<Rightarrow> datetime list \<Rightarrow> ScheduledBlock \<Rightarrow> bool" where
  "placed todo slots b \<longleftrightarrow>
     kind b = ''todo'' \<and> blk_title b = title todo \<and> blk_start b \<in> set slots
     \<and> blk_start b < deadline todo
     \<and> blk_end b = blk_start b + timedelta_minutes BLOCK_MINUTES"

text \<open>The slot starts the main loop walks for every task.\<close>

definition cfg_slots :: "config \<Rightarrow> datetime list" where
  "cfg_slots cfg =
     fst (iter_study_slots (start_base cfg) (days cfg) (study_start_hour cfg) (study_end_hour cfg))"

text \<open>
  Two blocks overlap when their half-open intervals \<open>[start, end)\<close> have a point in
  common; a list of blocks is free of overlaps when no two of its entries overlap.
\<close>

definition overlaps :: "ScheduledBlock \<Rightarrow> ScheduledBlock \<Rightarrow> bool" where
  "overlaps a b \<longleftrightarrow> max (blk_start a) (blk_start b) < min (blk_end a) (blk_end b)"

fun no_overlap :: "ScheduledBlock list \<Rightarrow> bool" where
  "no_overlap [] = True"
| "no_overlap (b # bs) = (list_all (\<lambda>c. \<not> overlaps b c) bs \<and> no_overlap bs)"

definition ex_event :: "string \<Rightarrow> datetime \<Rightarrow> datetime \<Rightarrow> FixedEvent" where
  "ex_event name s e = \<lparr> ev_title = name, ev_start = s, ev_end = e \<rparr>"

text \<open>A task of 330 minutes due at noon of 2025-03-04, and eleven consecutive blocks from 19:00.\<close>

definition cx_task :: TodoTask where
  "cx_task = ex_task ''hw'' (at_day 739314 12 0) 330 (Some 1) False"

definition cx_blocks :: "ScheduledBlock list" where
  "cx_blocks = [\<lparr>blk_title = ''hw'', blk_start = at_day 739313 19 0, blk_end = at_day 739313 19 30, kind = ''todo''\<rparr>,
      \<lparr>blk_title = ''hw'', blk_start = at_day 739313 19 30, blk_end = at_day 739313 20 0, kind = ''todo''\<rparr>,
      \<lparr>blk_title = ''hw'', blk_start = at_day 739313 20 0, blk_end = at_day 739313 20 30, kind = ''todo''\<rparr>,
      \<lparr>blk_title = ''hw'', blk_start = at_day 739313 20 30, blk_end = at_day 739313 21 0, kind = ''todo''\<rparr>,
      \<lparr>blk_title = ''hw'', blk_start = at_day 739313 21 0, blk_end = at_day 739313 21 30, kind = ''todo''\<rparr>,
      \<lparr>blk_title = ''hw'', blk_start = at_day 739313 21 30, blk_end = at_day 739313 22 0, kind = ''todo''\<rparr>,
      \<lparr>blk_title = ''hw'', blk_start = at_day 739313 22 0, blk_end = at_day 739313 22 30, kind = ''todo''\<rparr>,
      \<lparr>blk_title = ''hw'', blk_start = at_day 739313 22 30, blk_end = at_day 739313 23 0, kind = ''todo''\<rparr>,
      \<lparr>blk_title = ''hw'', blk_start = at_day 739313 23 0, blk_end = at_day 739313 23 30, kind = ''todo''\<rparr>,
      \<lparr>blk_title = ''hw'', blk_start = at_day 739313 23 30, blk_end = at_day 739314 0 0, kind = ''todo''\<rparr>,
      \<lparr>blk_title = ''hw'', blk_start = at_day 739314 0 0, blk_end = at_day 739314 0 30, kind = ''todo''\<rparr>]"

text \<open>
  The minutes of a block, and the minutes committed under a title, as \<^verbatim>\<open>app.py\<close> adds
  them up: over the blocks of kind todo with that title.
\<close>

definition block_minutes :: "ScheduledBlock \<Rightarrow> int" where
  "block_minutes b = (blk_end b - blk_start b) div US_PER_MINUTE"

definition todo_minutes :: "string \<Rightarrow> ScheduledBlock list \<Rightarrow> int" where
  "todo_minutes T bs =
     sum_list (map block_minutes (filter (\<lambda>b. kind b = ''todo'' \<and> blk_title b = T) bs))"

text \<open>A duration rounded up to whole slots, and the sum of these over the tasks with a title.\<close>

definition round_up_to_block :: "int \<Rightarrow> int" where
  "round_up_to_block m = ((m + BLOCK_MINUTES - 1) div BLOCK_MINUTES) * BLOCK_MINUTES"

definition title_budget :: "string \<Rightarrow> TodoTask list \<Rightarrow> int" where
  "title_budget T ts =
     sum_list (map (\<lambda>t. round_up_to_block (estimated_time_minutes t))
                   (filter (\<lambda>t. title t = T) ts))"













text \<open>
  The capacity estimate of the cram test in closed form, for a daily cap of \<open>cap\<close>
  minutes: the cap for each of the days counted by the difference of the days of the month
  of deadline and slot, less one; the hours from the slot's hour to the end of the window;
  the hours from the start of the window to the deadline's hour; less one slot for each
  occupied slot among all the slots the generator yields for the days from the slot's day
  on, one day more than the difference of the days of the month.
\<close>

definition capacity_estimate ::
  "config \<Rightarrow> TodoTask \<Rightarrow> ScheduledBlock list \<Rightarrow> datetime \<Rightarrow> int \<Rightarrow> int" where
  "capacity_estimate cfg todo bs slot_start cap =
     (day_of (deadline todo) - day_of slot_start - 1) * cap
     + max (study_end_hour cfg - hour_of slot_start) 0 * 60
     + max (hour_of (deadline todo) - study_start_hour cfg) 0 * 60
     - BLOCK_MINUTES *
         int (length (filter
           (\<lambda>x. \<not> is_free bs x (x + timedelta_minutes BLOCK_MINUTES))
           (fst (iter_study_slots slot_start (day_of (deadline todo) - day_of slot_start + 1)
                  (study_start_hour cfg) (study_end_hour cfg)))))"



text \<open>
  The slots of the daily windows of \<open>n\<close> days from day \<open>d0\<close> on: every
  \<open>BLOCK_MINUTES\<close> from the start hour, up to the end hour.
\<close>

definition window_slots :: "date \<Rightarrow> int \<Rightarrow> int \<Rightarrow> int \<Rightarrow> datetime list" where
  "window_slots d0 n sh eh =
     concat (map (\<lambda>j. map (\<lambda>k. at_day (d0 + int j) sh 0 + int k * timedelta_minutes BLOCK_MINUTES)
                          [0..<nat (2 * (eh - sh))])
                 [0..<nat n])"

section \<open>Basic facts\<close>

lemma block_us_pos: "0 < timedelta_minutes BLOCK_MINUTES"
  by (simp add: timedelta_minutes_def BLOCK_MINUTES_def US_PER_MINUTE_def)

lemma add_timedelta_Inr: "add_timedelta t d = Inr t' \<Longrightarrow> t' = t + d"
  by (simp add: add_timedelta_def split: if_splits)

lemma set_order_todos: "order_todos ts = Inr xs \<Longrightarrow> set xs = set ts"
  by (auto simp: order_todos_def sort_by_priority_def split: if_splits)

section \<open>Cram mode and tasks that are not exams\<close>

lemma cram_defer_no_exam: "\<not> exam_or_not todo \<Longrightarrow> cram_defer cfg todo bs s = Inr False"
  by (simp add: cram_defer_def)

lemma over_cap_cram: "over_cap (cfg\<lparr>cram_or_not := c\<rparr>) dtm s = over_cap cfg dtm s"
  by (simp add: over_cap_def)

lemma commit_cram: "commit (cfg\<lparr>cram_or_not := c\<rparr>) todo s e st = commit cfg todo s e st"
  by (simp add: commit_def)

lemma slot_loop_cram:
  "\<not> exam_or_not todo \<Longrightarrow>
   slot_loop (cfg\<lparr>cram_or_not := c\<rparr>) todo slots ge st = slot_loop cfg todo slots ge st"
  by (induction slots arbitrary: st)
     (simp_all add: cram_defer_no_exam over_cap_cram commit_cram split: sum.splits)

lemma process_todo_cram:
  "\<not> exam_or_not todo \<Longrightarrow>
   process_todo (cfg\<lparr>cram_or_not := c\<rparr>) todo s = process_todo cfg todo s"
  by (simp add: process_todo_def slot_loop_cram)

lemma todo_loop_cram:
  "\<forall>t\<in>set ts. \<not> exam_or_not t \<Longrightarrow>
   todo_loop (cfg\<lparr>cram_or_not := c\<rparr>) ts s = todo_loop cfg ts s"
  by (induction ts arbitrary: s) (simp_all add: process_todo_cram split: sum.splits)

lemma exam_normalize: "exam_or_not (normalize t) = exam_or_not t"
  by (simp add: normalize_def)

lemma make_config_cram:
  "make_config d sd mh sh eh True n = (make_config d sd mh sh eh False n)\<lparr>cram_or_not := True\<rparr>"
  by (simp add: make_config_def)

text \<open>
  C10. If no task of the input is an exam, \<open>build_schedule\<close> with cram mode on returns
  exactly what it returns with cram mode off, whatever the other arguments are: the same
  block list, or the same exception.
\<close>

theorem cram_only_affects_exams:
  assumes "\<forall>t\<in>set (todos parsed). \<not> exam_or_not t"
  shows "build_schedule parsed d sd mh sh eh True n = build_schedule parsed d sd mh sh eh False n"
proof (cases "order_todos (map normalize (todos parsed))")
  case (Inl e)
  then show ?thesis by (simp add: build_schedule_def)
next
  case (Inr xs)
  then have "set xs = set (map normalize (todos parsed))" by (rule set_order_todos)
  with assms have "\<forall>t\<in>set xs. \<not> exam_or_not t" by (auto simp: exam_normalize)
  then show ?thesis using Inr
    by (simp add: build_schedule_def Let_def make_config_cram todo_loop_cram)
qed

theorem cram_only_affects_exams_witness:
  "list_all (\<lambda>t. \<not> exam_or_not t)
     (todos (ex_input [ex_task ''hw'' (at_day 739314 19 15) 45 (Some 1) False] []))
   \<and> build_schedule (ex_input [ex_task ''hw'' (at_day 739314 19 15) 45 (Some 1) False] [])
        2 None (Some 3) None None True (at_day 739313 8 0)
     = build_schedule (ex_input [ex_task ''hw'' (at_day 739314 19 15) 45 (Some 1) False] [])
        2 None (Some 3) None None False (at_day 739313 8 0)"
proof -
  have h: "\<forall>t\<in>set (todos (ex_input [ex_task ''hw'' (at_day 739314 19 15) 45 (Some 1) False] [])).
      \<not> exam_or_not t"
    by (simp add: ex_input_def ex_task_def)
  show ?thesis
    using h cram_only_affects_exams [OF h, of 2 None "Some 3" None None "at_day 739313 8 0"]
    by (simp add: list_all_iff)
qed

section \<open>Exceptions\<close>

text \<open>
  C4. The claim is that \<open>build_schedule\<close> returns a block list for every well-typed input.
  The code raises \<^verbatim>\<open>TypeError\<close> in cram mode when no daily cap is given and an exam task
  reaches a candidate slot (the capacity estimate multiplies by the cap, which is
  \<^verbatim>\<open>None\<close>), and when two or more tasks are sorted and one of them has no priority.
\<close>

theorem build_schedule_raises_TypeError:
  "build_schedule (ex_input [ex_task ''exam'' (at_day 739314 19 0) 60 (Some 1) True] [])
      7 None None None None True (at_day 739313 8 0) = Inl TypeError
   \<and> build_schedule (ex_input [ex_task ''a'' (at_day 739314 19 0) 60 None False,
                                ex_task ''b'' (at_day 739315 19 0) 60 (Some 1) False] [])
      7 None (Some 4) None None False (at_day 739313 8 0) = Inl TypeError"
  by code_simp

section \<open>Arithmetic of datetimes\<close>

lemmas time_defs = US_PER_DAY_def US_PER_HOUR_def US_PER_MINUTE_def timedelta_minutes_def
  BLOCK_MINUTES_def date_of_def hour_of_def

lemma hour_lt_imp: "(r::int) div 3600000000 < h \<Longrightarrow> r < h * 3600000000"
proof -
  assume a: "r div 3600000000 < h"
  have "r = 3600000000 * (r div 3600000000) + r mod 3600000000" by simp
  moreover have "r mod 3600000000 < 3600000000" by simp
  moreover from a have "r div 3600000000 + 1 \<le> h" by simp
  then have "3600000000 * (r div 3600000000 + 1) \<le> 3600000000 * h" by simp
  ultimately show ?thesis by (simp add: algebra_simps)
qed

lemma date_of_mk:
  assumes "0 \<le> r" "r < US_PER_DAY"
  shows "date_of (d * US_PER_DAY + r) = d"
proof -
  have "(r + d * 86400000000) div 86400000000 = d + r div 86400000000"
    by (simp only: div_mult_self1 [of 86400000000, simplified] add.commute)
  also have "r div 86400000000 = 0"
    using assms by (simp add: US_PER_DAY_def)
  finally show ?thesis by (simp add: date_of_def US_PER_DAY_def add.commute)
qed

lemma day_decomp: "t = date_of t * US_PER_DAY + t mod US_PER_DAY"
  by (simp add: date_of_def)

lemma mod_day_bounds: "0 \<le> t mod US_PER_DAY" "t mod US_PER_DAY < US_PER_DAY"
  by (simp_all add: US_PER_DAY_def)

lemma date_of_shift:
  assumes "0 \<le> t mod US_PER_DAY + x" "t mod US_PER_DAY + x < US_PER_DAY"
  shows "date_of (t + x) = date_of t"
proof -
  have "t + x = date_of t * US_PER_DAY + t mod US_PER_DAY + x"
    by (rule arg_cong [where f = "\<lambda>u. u + x", OF day_decomp])
  then have "date_of (t + x) = date_of (date_of t * US_PER_DAY + (t mod US_PER_DAY + x))"
    by (simp only: add.assoc)
  also have "\<dots> = date_of t" using assms by (rule date_of_mk)
  finally show ?thesis .
qed

lemma date_of_step:
  assumes "hour_of day < eh" "eh \<le> 23"
  shows "date_of (day + timedelta_minutes BLOCK_MINUTES) = date_of day"
proof (rule date_of_shift)
  let ?r = "day mod US_PER_DAY"
  have "?r div 3600000000 < 23" using assms by (simp add: hour_of_def US_PER_HOUR_def)
  then have r: "?r < 23 * 3600000000" by (rule hour_lt_imp)
  then show "?r + timedelta_minutes BLOCK_MINUTES < US_PER_DAY"
    by (simp add: US_PER_DAY_def timedelta_minutes_def BLOCK_MINUTES_def US_PER_MINUTE_def)
  show "0 \<le> ?r + timedelta_minutes BLOCK_MINUTES"
    using mod_day_bounds(1) [of day] block_us_pos by linarith
qed

lemma date_of_add_days: "date_of (t + timedelta_days d) = date_of t + d"
proof -
  have "t + timedelta_days d = date_of t * US_PER_DAY + t mod US_PER_DAY + d * US_PER_DAY"
    unfolding timedelta_days_def
    by (rule arg_cong [where f = "\<lambda>u. u + d * US_PER_DAY", OF day_decomp])
  also have "\<dots> = (date_of t + d) * US_PER_DAY + t mod US_PER_DAY"
    by (simp add: algebra_simps)
  finally have "date_of (t + timedelta_days d)
      = date_of ((date_of t + d) * US_PER_DAY + t mod US_PER_DAY)" by simp
  also have "\<dots> = date_of t + d" using mod_day_bounds by (rule date_of_mk)
  finally show ?thesis .
qed

lemma date_of_less:
  assumes "date_of a < date_of b"
  shows "a < b"
proof -
  from assms have "date_of a + 1 \<le> date_of b" by simp
  then have "(date_of a + 1) * 86400000000 \<le> date_of b * 86400000000" by simp
  then have h: "date_of a * 86400000000 + 86400000000 \<le> date_of b * 86400000000"
    by (simp add: algebra_simps)
  have a: "a = date_of a * 86400000000 + a mod 86400000000"
    using day_decomp [of a] by (simp add: US_PER_DAY_def)
  have b: "b = date_of b * 86400000000 + b mod 86400000000"
    using day_decomp [of b] by (simp add: US_PER_DAY_def)
  have "a mod 86400000000 < 86400000000" "0 \<le> b mod 86400000000" by simp_all
  with h a b show ?thesis by linarith
qed

lemma replace_hour_Inr:
  "replace_hour t h = Inr day \<Longrightarrow>
     0 \<le> h \<and> h \<le> 23 \<and> day = date_of t * US_PER_DAY + h * US_PER_HOUR"
  by (simp add: replace_hour_def split: if_splits)

lemma date_of_hour_start:
  "0 \<le> h \<Longrightarrow> h \<le> 23 \<Longrightarrow> date_of (d * US_PER_DAY + h * US_PER_HOUR) = d"
  by (rule date_of_mk) (simp_all add: US_PER_DAY_def US_PER_HOUR_def)

section \<open>The slots of the generator\<close>

lemma day_slots_stop: "\<not> hour_of day < eh \<Longrightarrow> day_slots day eh = ([], None)"
  by (subst day_slots.simps) simp

lemma day_slots_overflow:
  "hour_of day < eh \<Longrightarrow>
   \<not> (MIN_DT \<le> day + timedelta_minutes BLOCK_MINUTES
       \<and> day + timedelta_minutes BLOCK_MINUTES \<le> MAX_DT) \<Longrightarrow>
   day_slots day eh = ([day], Some OverflowError)"
  by (subst day_slots.simps) auto

lemma day_slots_step:
  "hour_of day < eh \<Longrightarrow> MIN_DT \<le> day + timedelta_minutes BLOCK_MINUTES \<Longrightarrow>
   day + timedelta_minutes BLOCK_MINUTES \<le> MAX_DT \<Longrightarrow>
   day_slots day eh =
     (day # fst (day_slots (day + timedelta_minutes BLOCK_MINUTES) eh),
      snd (day_slots (day + timedelta_minutes BLOCK_MINUTES) eh))"
  by (subst day_slots.simps) (simp split: prod.splits)

lemma day_slots_mem:
  "s \<in> set (fst (day_slots day eh)) \<Longrightarrow>
     day \<le> s \<and> hour_of s < eh \<and> timedelta_minutes BLOCK_MINUTES dvd (s - day)"
proof (induction day eh rule: day_slots.induct)
  case (1 day eh)
  show ?case
  proof (cases "hour_of day < eh")
    case False
    with "1.prems" show ?thesis by (simp add: day_slots_stop)
  next
    case h: True
    show ?thesis
    proof (cases "MIN_DT \<le> day + timedelta_minutes BLOCK_MINUTES
            \<and> day + timedelta_minutes BLOCK_MINUTES \<le> MAX_DT")
      case False
      with h "1.prems" have "s = day" by (simp add: day_slots_overflow)
      with h show ?thesis by simp
    next
      case True
      with h "1.prems" have "s = day \<or> s \<in> set (fst (day_slots (day + timedelta_minutes BLOCK_MINUTES) eh))"
        by (simp add: day_slots_step)
      then show ?thesis
      proof
        assume "s = day" with h show ?thesis by simp
      next
        assume "s \<in> set (fst (day_slots (day + timedelta_minutes BLOCK_MINUTES) eh))"
        from "1.IH" [OF h True this]
        have a: "day + timedelta_minutes BLOCK_MINUTES \<le> s" "hour_of s < eh"
          "timedelta_minutes BLOCK_MINUTES dvd (s - (day + timedelta_minutes BLOCK_MINUTES))"
          by auto
        from a(3) have "timedelta_minutes BLOCK_MINUTES dvd
              (s - (day + timedelta_minutes BLOCK_MINUTES)) + timedelta_minutes BLOCK_MINUTES"
          by (rule dvd_add) simp
        then have "timedelta_minutes BLOCK_MINUTES dvd (s - day)" by (simp add: algebra_simps)
        then show ?thesis using a block_us_pos by simp
      qed
    qed
  qed
qed

lemma day_slots_date:
  "eh \<le> 23 \<Longrightarrow> s \<in> set (fst (day_slots day eh)) \<Longrightarrow> date_of s = date_of day"
proof (induction day eh rule: day_slots.induct)
  case (1 day eh)
  show ?case
  proof (cases "hour_of day < eh")
    case False
    with "1.prems" show ?thesis by (simp add: day_slots_stop)
  next
    case h: True
    show ?thesis
    proof (cases "MIN_DT \<le> day + timedelta_minutes BLOCK_MINUTES
            \<and> day + timedelta_minutes BLOCK_MINUTES \<le> MAX_DT")
      case False
      with h "1.prems" have "s = day" by (simp add: day_slots_overflow)
      then show ?thesis by simp
    next
      case True
      with h "1.prems" have "s = day \<or> s \<in> set (fst (day_slots (day + timedelta_minutes BLOCK_MINUTES) eh))"
        by (simp add: day_slots_step)
      then show ?thesis
        using "1.IH" [OF h True "1.prems"(1)] date_of_step [OF h "1.prems"(1)] by auto
    qed
  qed
qed

lemma day_slots_sorted: "sorted_wrt (<) (fst (day_slots day eh))"
proof (induction day eh rule: day_slots.induct)
  case (1 day eh)
  show ?case
  proof (cases "hour_of day < eh")
    case False
    then show ?thesis by (simp add: day_slots_stop)
  next
    case h: True
    show ?thesis
    proof (cases "MIN_DT \<le> day + timedelta_minutes BLOCK_MINUTES
            \<and> day + timedelta_minutes BLOCK_MINUTES \<le> MAX_DT")
      case False
      with h show ?thesis by (simp add: day_slots_overflow)
    next
      case True
      have "\<forall>s\<in>set (fst (day_slots (day + timedelta_minutes BLOCK_MINUTES) eh)). day < s"
        using day_slots_mem [of _ "day + timedelta_minutes BLOCK_MINUTES" eh] block_us_pos by fastforce
      with "1.IH" [OF h True] h True show ?thesis by (simp add: day_slots_step)
    qed
  qed
qed

lemma iter_days_Suc_fst:
  assumes "add_timedelta start (timedelta_days d) = Inr t" "replace_hour t sh = Inr day"
  shows "fst (iter_days start sh eh d (Suc n)) =
           fst (day_slots day eh) @
           (if snd (day_slots day eh) = None then fst (iter_days start sh eh (d + 1) n) else [])"
  using assms by (simp split: prod.splits option.splits)

lemma iter_days_Suc_fail:
  "add_timedelta start (timedelta_days d) = Inl e \<Longrightarrow> fst (iter_days start sh eh d (Suc n)) = []"
  "add_timedelta start (timedelta_days d) = Inr t \<Longrightarrow> replace_hour t sh = Inl e \<Longrightarrow>
     fst (iter_days start sh eh d (Suc n)) = []"
  by simp_all

lemma iter_days_mem:
  "s \<in> set (fst (iter_days start sh eh d n)) \<Longrightarrow>
   \<exists>j. d \<le> j \<and> j < d + int n \<and> 0 \<le> sh \<and> sh \<le> 23
      \<and> s \<in> set (fst (day_slots ((date_of start + j) * US_PER_DAY + sh * US_PER_HOUR) eh))"
proof (induction n arbitrary: d)
  case 0
  then show ?case by simp
next
  case (Suc n)
  show ?case
  proof (cases "add_timedelta start (timedelta_days d)")
    case (Inl e)
    with Suc.prems show ?thesis by (simp only: iter_days_Suc_fail) simp
  next
    case t: (Inr t)
    then have t_eq: "t = start + timedelta_days d" by (rule add_timedelta_Inr)
    show ?thesis
    proof (cases "replace_hour t sh")
      case (Inl e)
      with Suc.prems t show ?thesis by (simp only: iter_days_Suc_fail) simp
    next
      case day: (Inr day)
      from replace_hour_Inr [OF day] t_eq
      have sh: "0 \<le> sh" "sh \<le> 23"
        and day_eq: "day = (date_of start + d) * US_PER_DAY + sh * US_PER_HOUR"
        by (simp_all add: date_of_add_days)
      from Suc.prems
      have "s \<in> set (fst (day_slots day eh)) \<or> s \<in> set (fst (iter_days start sh eh (d + 1) n))"
        by (simp only: iter_days_Suc_fst [OF t day]) (auto split: if_splits)
      then show ?thesis
      proof
        assume "s \<in> set (fst (day_slots day eh))"
        with sh day_eq have "d \<le> d \<and> d < d + int (Suc n) \<and> 0 \<le> sh \<and> sh \<le> 23
          \<and> s \<in> set (fst (day_slots ((date_of start + d) * US_PER_DAY + sh * US_PER_HOUR) eh))"
          by simp
        then show ?thesis by (rule exI)
      next
        assume "s \<in> set (fst (iter_days start sh eh (d + 1) n))"
        from Suc.IH [OF this] obtain j where j: "d + 1 \<le> j" "j < d + 1 + int n"
          "s \<in> set (fst (day_slots ((date_of start + j) * US_PER_DAY + sh * US_PER_HOUR) eh))"
          by blast
        with sh have "d \<le> j \<and> j < d + int (Suc n) \<and> 0 \<le> sh \<and> sh \<le> 23
          \<and> s \<in> set (fst (day_slots ((date_of start + j) * US_PER_DAY + sh * US_PER_HOUR) eh))"
          by simp
        then show ?thesis by (rule exI)
      qed
    qed
  qed
qed


lemma iter_study_slots_mem:
  assumes "s \<in> set (fst (iter_study_slots start n sh eh))"
  shows "\<exists>j. 0 \<le> j \<and> j < n \<and> 0 \<le> sh \<and> sh \<le> 23
      \<and> (date_of start + j) * US_PER_DAY + sh * US_PER_HOUR \<le> s \<and> hour_of s < eh
      \<and> timedelta_minutes BLOCK_MINUTES dvd s
      \<and> (eh \<le> 23 \<longrightarrow> date_of s = date_of start + j)"
proof -
  from assms obtain j where j: "0 \<le> j" "j < 0 + int (nat n)" "0 \<le> sh" "sh \<le> 23"
    "s \<in> set (fst (day_slots ((date_of start + j) * US_PER_DAY + sh * US_PER_HOUR) eh))"
    unfolding iter_study_slots_def by (blast dest: iter_days_mem)
  from j(1,2) have jn: "j < n" by (simp split: if_splits)
  let ?day = "(date_of start + j) * US_PER_DAY + sh * US_PER_HOUR"
  from day_slots_mem [OF j(5)] have m: "?day \<le> s" "hour_of s < eh"
    "timedelta_minutes BLOCK_MINUTES dvd (s - ?day)" by auto
  have "timedelta_minutes BLOCK_MINUTES dvd ?day"
    by (simp add: time_defs)
  with m(3) have "timedelta_minutes BLOCK_MINUTES dvd (s - ?day) + ?day" by (rule dvd_add)
  then have dv: "timedelta_minutes BLOCK_MINUTES dvd s" by simp
  have "eh \<le> 23 \<longrightarrow> date_of s = date_of start + j"
    using day_slots_date [OF _ j(5)] date_of_hour_start [OF j(3,4)] by simp
  with j(1,3,4) jn m(1,2) dv
  have "0 \<le> j \<and> j < n \<and> 0 \<le> sh \<and> sh \<le> 23
      \<and> ?day \<le> s \<and> hour_of s < eh
      \<and> timedelta_minutes BLOCK_MINUTES dvd s
      \<and> (eh \<le> 23 \<longrightarrow> date_of s = date_of start + j)" by simp
  then show ?thesis by (rule exI)
qed

lemma iter_days_sorted:
  "eh \<le> 23 \<Longrightarrow> sorted_wrt (<) (fst (iter_days start sh eh d n))"
proof (induction n arbitrary: d)
  case 0
  then show ?case by simp
next
  case (Suc n)
  show ?case
  proof (cases "add_timedelta start (timedelta_days d)")
    case (Inl e)
    then show ?thesis by (simp only: iter_days_Suc_fail) simp
  next
    case t: (Inr t)
    then have t_eq: "t = start + timedelta_days d" by (rule add_timedelta_Inr)
    show ?thesis
    proof (cases "replace_hour t sh")
      case (Inl e)
      with t show ?thesis by (simp only: iter_days_Suc_fail) simp
    next
      case day: (Inr day)
      from replace_hour_Inr [OF day] t_eq
      have sh: "0 \<le> sh" "sh \<le> 23"
        and day_eq: "day = (date_of start + d) * US_PER_DAY + sh * US_PER_HOUR"
        by (simp_all add: date_of_add_days)
      have cross: "y < z" if "y \<in> set (fst (day_slots day eh))"
        "z \<in> set (fst (iter_days start sh eh (d + 1) n))" for y z
      proof -
        from day_slots_date [OF Suc.prems that(1)] day_eq sh
        have y: "date_of y = date_of start + d" by (simp add: date_of_hour_start)
        from iter_days_mem [OF that(2)] obtain j where j: "d + 1 \<le> j"
          "z \<in> set (fst (day_slots ((date_of start + j) * US_PER_DAY + sh * US_PER_HOUR) eh))"
          by blast
        from day_slots_date [OF Suc.prems j(2)] sh
        have "date_of z = date_of start + j" by (simp add: date_of_hour_start)
        with y j(1) have "date_of y < date_of z" by simp
        then show ?thesis by (rule date_of_less)
      qed
      have "sorted_wrt (<) (fst (day_slots day eh) @ fst (iter_days start sh eh (d + 1) n))"
        using day_slots_sorted [of day eh] Suc.IH [OF Suc.prems, of "d + 1"] cross
        by (simp add: sorted_wrt_append)
      then show ?thesis
        using day_slots_sorted [of day eh]
        by (simp only: iter_days_Suc_fst [OF t day]) (simp split: if_splits)
    qed
  qed
qed

section \<open>The slot sequence is ascending and within the horizon\<close>

lemma hour_of_le_23: "hour_of t \<le> 23"
proof -
  have "t mod 86400000000 < 86400000000" by simp
  then have "t mod 86400000000 div 3600000000 < 24"
    by (simp add: div_less_iff_less_mult)
  then show ?thesis by (simp add: hour_of_def US_PER_DAY_def US_PER_HOUR_def)
qed

lemma day_slots_reach:
  "24 \<le> eh \<Longrightarrow> MIN_DT \<le> day \<Longrightarrow> day + int k * timedelta_minutes BLOCK_MINUTES \<le> MAX_DT \<Longrightarrow>
   day + int k * timedelta_minutes BLOCK_MINUTES \<in> set (fst (day_slots day eh))"
proof (induction k arbitrary: day)
  case 0
  have h: "hour_of day < eh" using hour_of_le_23 [of day] 0(1) by simp
  show ?case
  proof (cases "MIN_DT \<le> day + timedelta_minutes BLOCK_MINUTES
            \<and> day + timedelta_minutes BLOCK_MINUTES \<le> MAX_DT")
    case True
    with h show ?thesis by (simp add: day_slots_step)
  next
    case False
    with h show ?thesis by (simp add: day_slots_overflow)
  qed
next
  case (Suc k)
  have h: "hour_of day < eh" using hour_of_le_23 [of day] Suc.prems(1) by simp
  have eq: "day + int (Suc k) * timedelta_minutes BLOCK_MINUTES
        = (day + timedelta_minutes BLOCK_MINUTES) + int k * timedelta_minutes BLOCK_MINUTES"
    by (simp add: algebra_simps)
  have "0 \<le> int k * timedelta_minutes BLOCK_MINUTES" using block_us_pos by simp
  with Suc.prems(3) eq have up: "day + timedelta_minutes BLOCK_MINUTES \<le> MAX_DT" by linarith
  have lo: "MIN_DT \<le> day + timedelta_minutes BLOCK_MINUTES"
    using Suc.prems(2) block_us_pos by linarith
  from Suc.prems(3) eq
  have "(day + timedelta_minutes BLOCK_MINUTES) + int k * timedelta_minutes BLOCK_MINUTES \<le> MAX_DT"
    by simp
  from Suc.IH [OF Suc.prems(1) lo this] show ?case
    by (simp only: eq day_slots_step [OF h lo up]) simp
qed

text \<open>
  C5. The claim is stated for every pair of window hours. An end hour of 24 or more is never
  reached by the hour of a datetime, so the loop of a day then runs into the following days,
  beyond the horizon. For an end hour of at most 23, every anchor, every number of days and
  every start hour, the generator yields a finite list of slot starts that is strictly
  ascending, each on one of the \<open>n\<close> days that start with the anchor's day.
\<close>

theorem iter_study_slots_ascending_bounded:
  assumes "eh \<le> 23"
  shows "sorted_wrt (<) (fst (iter_study_slots start n sh eh))
    \<and> (\<forall>s\<in>set (fst (iter_study_slots start n sh eh)).
          date_of start \<le> date_of s \<and> date_of s < date_of start + n)"
proof
  show "sorted_wrt (<) (fst (iter_study_slots start n sh eh))"
    unfolding iter_study_slots_def using assms by (rule iter_days_sorted)
  show "\<forall>s\<in>set (fst (iter_study_slots start n sh eh)).
          date_of start \<le> date_of s \<and> date_of s < date_of start + n"
  proof
    fix s assume "s \<in> set (fst (iter_study_slots start n sh eh))"
    from iter_study_slots_mem [OF this] assms
    obtain j where "0 \<le> j" "j < n" "date_of s = date_of start + j" by blast
    then show "date_of start \<le> date_of s \<and> date_of s < date_of start + n" by simp
  qed
qed

theorem iter_study_slots_ascending_bounded_witness:
  "sorted_wrt (<) (fst (iter_study_slots (at_day 739313 0 0) 2 19 21))
   \<and> list_all (\<lambda>s. date_of (at_day 739313 0 0) \<le> date_of s
                    \<and> date_of s < date_of (at_day 739313 0 0) + 2)
        (fst (iter_study_slots (at_day 739313 0 0) 2 19 21))
   \<and> fst (iter_study_slots (at_day 739313 0 0) 2 19 21) =
       [at_day 739313 19 0, at_day 739313 19 30, at_day 739313 20 0, at_day 739313 20 30,
        at_day 739314 19 0, at_day 739314 19 30, at_day 739314 20 0, at_day 739314 20 30]"
proof -
  have h: "(21::int) \<le> 23" by simp
  have "fst (iter_study_slots (at_day 739313 0 0) 2 19 21) =
       [at_day 739313 19 0, at_day 739313 19 30, at_day 739313 20 0, at_day 739313 20 30,
        at_day 739314 19 0, at_day 739314 19 30, at_day 739314 20 0, at_day 739314 20 30]"
    by code_simp
  then show ?thesis
    using iter_study_slots_ascending_bounded [OF h, where start = "at_day 739313 0 0" and n = 2 and sh = 19]
    by (simp only: list_all_iff) simp
qed

theorem iter_study_slots_end_hour_24_counterexample:
  "at_day 739314 0 0 \<in> set (fst (iter_study_slots (at_day 739313 0 0) 1 19 24))
   \<and> \<not> date_of (at_day 739314 0 0) < date_of (at_day 739313 0 0) + 1"
proof
  have t: "add_timedelta (at_day 739313 0 0) (timedelta_days 0) = Inr (at_day 739313 0 0)"
    by code_simp
  have d: "replace_hour (at_day 739313 0 0) 19 = Inr (at_day 739313 19 0)"
    by code_simp
  have "at_day 739313 19 0 + int 10 * timedelta_minutes BLOCK_MINUTES
      \<in> set (fst (day_slots (at_day 739313 19 0) 24))"
    by (rule day_slots_reach) (simp_all add: at_day_def MIN_DT_def MAX_DT_def time_defs)
  moreover have "at_day 739313 19 0 + int 10 * timedelta_minutes BLOCK_MINUTES = at_day 739314 0 0"
    by (simp add: at_day_def time_defs)
  ultimately have "at_day 739314 0 0 \<in> set (fst (day_slots (at_day 739313 19 0) 24))" by simp
  then show "at_day 739314 0 0 \<in> set (fst (iter_study_slots (at_day 739313 0 0) 1 19 24))"
    unfolding iter_study_slots_def
    by (simp only: nat_1 One_nat_def iter_days_Suc_fst [OF t d]) simp
  show "\<not> date_of (at_day 739314 0 0) < date_of (at_day 739313 0 0) + 1"
    by (simp add: at_day_def time_defs)
qed

section \<open>Where the blocks of the output come from\<close>

lemma blocks_commit:
  "blocks (commit cfg todo s e st) =
     blocks st @ [\<lparr> blk_title = title todo, blk_start = s, blk_end = e, kind = ''todo'' \<rparr>]"
  by (simp add: commit_def)

lemma remaining_commit: "remaining (commit cfg todo s e st) = remaining st - BLOCK_MINUTES"
  by (simp add: commit_def)

lemma placed_mono: "placed todo slots b \<Longrightarrow> placed todo (s # slots) b"
  by (simp add: placed_def)

lemma slot_loop_ConsE:
  assumes "slot_loop cfg todo (s # rest) ge st = Inr st'"
  obtains (break) "s \<ge> deadline todo \<or> remaining st \<le> 0" "st' = st"
    | (skip) "s < deadline todo" "0 < remaining st" "slot_loop cfg todo rest ge st = Inr st'"
    | (commit) e where "s < deadline todo" "0 < remaining st"
        "add_timedelta s (timedelta_minutes BLOCK_MINUTES) = Inr e"
        "is_free (blocks st) s e"
        "slot_loop cfg todo rest ge (commit cfg todo s e st) = Inr st'"
  using assms by (auto split: sum.splits bool.splits if_splits)

lemma slot_loop_blocks:
  "slot_loop cfg todo slots ge st = Inr st' \<Longrightarrow>
   \<exists>new. blocks st' = blocks st @ new \<and> (\<forall>b\<in>set new. placed todo slots b)"
proof (induction slots arbitrary: st)
  case Nil
  then show ?case by (simp split: option.splits)
next
  case (Cons s rest)
  from Cons.prems show ?case
  proof (cases rule: slot_loop_ConsE)
    case break
    then show ?thesis by simp
  next
    case skip
    from Cons.IH [OF skip(3)] show ?thesis by (auto intro: placed_mono)
  next
    case (commit e)
    from Cons.IH [OF commit(5)] obtain new where
      new: "blocks st' = blocks (commit cfg todo s e st) @ new"
        "\<forall>b\<in>set new. placed todo rest b" by blast
    let ?b = "\<lparr> blk_title = title todo, blk_start = s, blk_end = e, kind = ''todo'' \<rparr>"
    have "placed todo (s # rest) ?b"
      using commit(1) add_timedelta_Inr [OF commit(3)] by (simp add: placed_def)
    with new have "blocks st' = blocks st @ (?b # new) \<and> (\<forall>b\<in>set (?b # new). placed todo (s # rest) b)"
      by (auto simp: blocks_commit intro: placed_mono)
    then show ?thesis by blast
  qed
qed

lemma process_todo_overdue: "deadline todo \<le> now cfg \<Longrightarrow> process_todo cfg todo s = Inr s"
  by (simp add: process_todo_def)

lemma process_todo_blocks:
  assumes "process_todo cfg todo s = Inr s'"
  shows "\<exists>new. fst s' = fst s @ new
           \<and> (\<forall>b\<in>set new. now cfg < deadline todo \<and> placed todo (cfg_slots cfg) b)"
proof (cases "deadline todo \<le> now cfg")
  case True
  with assms have "s' = s" by (simp add: process_todo_def)
  then show ?thesis by simp
next
  case False
  obtain slots ge where g: "iter_study_slots (start_base cfg) (days cfg)
      (study_start_hour cfg) (study_end_hour cfg) = (slots, ge)" by (cases "iter_study_slots (start_base cfg) (days cfg)
      (study_start_hour cfg) (study_end_hour cfg)")
  then have sl: "cfg_slots cfg = slots" by (simp add: cfg_slots_def)
  from assms False g obtain st where
    st: "slot_loop cfg todo slots ge \<lparr> blocks = fst s, day_todo_minutes = snd s,
                       remaining = estimated_time_minutes todo \<rparr> = Inr st"
    and s': "s' = (blocks st, day_todo_minutes st)"
    by (auto simp: process_todo_def split: sum.splits)
  from slot_loop_blocks [OF st] s' sl False show ?thesis by auto
qed

lemma todo_loop_blocks:
  "todo_loop cfg ts s = Inr s' \<Longrightarrow>
   \<exists>new. fst s' = fst s @ new
      \<and> (\<forall>b\<in>set new. \<exists>t\<in>set ts. now cfg < deadline t \<and> placed t (cfg_slots cfg) b)"
proof (induction ts arbitrary: s)
  case Nil
  then show ?case by simp
next
  case (Cons t ts)
  from Cons.prems obtain s1 where p: "process_todo cfg t s = Inr s1"
    and r: "todo_loop cfg ts s1 = Inr s'"
    by (auto split: sum.splits)
  from process_todo_blocks [OF p] obtain new1 where
    n1: "fst s1 = fst s @ new1"
      "\<forall>b\<in>set new1. now cfg < deadline t \<and> placed t (cfg_slots cfg) b" by blast
  from Cons.IH [OF r] obtain new2 where
    n2: "fst s' = fst s1 @ new2"
      "\<forall>b\<in>set new2. \<exists>u\<in>set ts. now cfg < deadline u \<and> placed u (cfg_slots cfg) b" by blast
  from n1 n2 have "fst s' = fst s @ (new1 @ new2)
      \<and> (\<forall>b\<in>set (new1 @ new2). \<exists>u\<in>set (t # ts). now cfg < deadline u \<and> placed u (cfg_slots cfg) b)"
    by auto
  then show ?case by blast
qed

lemma placed_normalize: "placed (normalize t) slots b = placed t slots b"
  by (simp add: placed_def normalize_def)

lemma deadline_normalize: "deadline (normalize t) = deadline t"
  by (simp add: normalize_def)

lemma title_normalize: "title (normalize t) = title t"
  by (simp add: normalize_def)

lemma kind_fixed_block: "kind (fixed_block e) = ''fixed''"
  by (simp add: fixed_block_def)

lemma now_make_config: "now (make_config n sd mh sh eh cram nw) = nw"
  by (simp add: make_config_def)

text \<open>The shape of a successful run.\<close>

lemma build_schedule_Inr:
  assumes "build_schedule parsed n sd mh sh eh cram nw = Inr out"
  obtains ordered s where
    "order_todos (map normalize (todos parsed)) = Inr ordered"
    "todo_loop (make_config n sd mh sh eh cram nw) ordered
       (map fixed_block (fixed_events parsed), Map.empty) = Inr s"
    "out = sort_key blk_start (fst s)"
  using assms by (auto simp: build_schedule_def Let_def split: sum.splits)

lemma build_schedule_todo_blocks:
  assumes "build_schedule parsed n sd mh sh eh cram nw = Inr out"
    and "b \<in> set out" and "kind b = ''todo''"
  shows "\<exists>t\<in>set (todos parsed). nw < deadline t
           \<and> placed t (cfg_slots (make_config n sd mh sh eh cram nw)) b"
proof -
  let ?cfg = "make_config n sd mh sh eh cram nw"
  from assms(1) obtain ordered s where
    o: "order_todos (map normalize (todos parsed)) = Inr ordered"
    and l: "todo_loop ?cfg ordered (map fixed_block (fixed_events parsed), Map.empty) = Inr s"
    and out: "out = sort_key blk_start (fst s)"
    by (rule build_schedule_Inr)
  from todo_loop_blocks [OF l] obtain new where
    new: "fst s = map fixed_block (fixed_events parsed) @ new"
      "\<forall>b\<in>set new. \<exists>t\<in>set ordered. now ?cfg < deadline t \<and> placed t (cfg_slots ?cfg) b"
    by auto
  from assms(2,3) out new(1) have "b \<in> set new"
    by (auto simp: kind_fixed_block)
  with new(2) obtain t where t: "t \<in> set ordered" "now ?cfg < deadline t"
    "placed t (cfg_slots ?cfg) b" by blast
  from t(1) set_order_todos [OF o] obtain u where u: "u \<in> set (todos parsed)" "t = normalize u"
    by auto
  with t(2,3) have "nw < deadline u \<and> placed u (cfg_slots ?cfg) b"
    by (simp add: placed_normalize deadline_normalize now_make_config)
  with u(1) show ?thesis by blast
qed

section \<open>Deadlines\<close>

lemma grid_step:
  assumes "timedelta_minutes BLOCK_MINUTES dvd a" "timedelta_minutes BLOCK_MINUTES dvd d" "a < d"
  shows "a + timedelta_minutes BLOCK_MINUTES \<le> d"
proof -
  from assms(1,2) have "timedelta_minutes BLOCK_MINUTES dvd d - a" by (rule dvd_diff [rotated])
  then obtain k where k: "d - a = timedelta_minutes BLOCK_MINUTES * k" by (rule dvdE)
  have "0 < k"
  proof (rule ccontr)
    assume "\<not> 0 < k"
    then have "k \<le> 0" by simp
    then have "timedelta_minutes BLOCK_MINUTES * k \<le> 0"
      using block_us_pos by (simp add: mult_le_0_iff)
    with k assms(3) show False by simp
  qed
  then have "1 \<le> k" by simp
  then have "timedelta_minutes BLOCK_MINUTES * 1 \<le> timedelta_minutes BLOCK_MINUTES * k"
    using block_us_pos by (intro mult_left_mono) simp_all
  with k show ?thesis by simp
qed

lemma cfg_slots_grid: "s \<in> set (cfg_slots cfg) \<Longrightarrow> timedelta_minutes BLOCK_MINUTES dvd s"
  unfolding cfg_slots_def by (blast dest: iter_study_slots_mem)

text \<open>
  C2. The loop stops a task at the first slot that starts at or after its deadline: it tests
  the start of the slot, not its end. Every block of kind todo in the output is therefore
  one slot long, bears the title of a task of the input that is not overdue and starts
  strictly before that task's deadline, so it ends less than \<open>BLOCK_MINUTES\<close> after the
  deadline; when the deadline lies on the slot grid (a whole multiple of \<open>BLOCK_MINUTES\<close>,
  as every slot start is), the block ends at or before the deadline.
\<close>

theorem todo_block_starts_before_deadline:
  assumes "build_schedule parsed n sd mh sh eh cram nw = Inr out"
    and "b \<in> set out" and "kind b = ''todo''"
  shows "\<exists>t\<in>set (todos parsed). title t = blk_title b \<and> nw < deadline t
           \<and> blk_start b < deadline t
           \<and> blk_end b = blk_start b + timedelta_minutes BLOCK_MINUTES
           \<and> (timedelta_minutes BLOCK_MINUTES dvd deadline t \<longrightarrow> blk_end b \<le> deadline t)"
proof -
  from build_schedule_todo_blocks [OF assms] obtain t where
    t: "t \<in> set (todos parsed)" "nw < deadline t"
      "placed t (cfg_slots (make_config n sd mh sh eh cram nw)) b" by blast
  from t(3) have p: "blk_title b = title t" "blk_start b < deadline t"
    "blk_end b = blk_start b + timedelta_minutes BLOCK_MINUTES"
    "timedelta_minutes BLOCK_MINUTES dvd blk_start b"
    by (auto simp: placed_def dest: cfg_slots_grid)
  have "timedelta_minutes BLOCK_MINUTES dvd deadline t \<longrightarrow> blk_end b \<le> deadline t"
    using grid_step [OF p(4) _ p(2)] p(3) by simp
  with t(1,2) p(1,2,3) show ?thesis by (intro bexI [of _ t]) simp_all
qed

theorem todo_block_starts_before_deadline_witness:
  "build_schedule (ex_input [ex_task ''hw'' (at_day 739313 20 0) 120 (Some 1) False] [])
      7 None None None None False (at_day 739313 8 0)
    = Inr [\<lparr>blk_title = ''hw'', blk_start = at_day 739313 19 0, blk_end = at_day 739313 19 30,
             kind = ''todo''\<rparr>,
           \<lparr>blk_title = ''hw'', blk_start = at_day 739313 19 30, blk_end = at_day 739313 20 0,
             kind = ''todo''\<rparr>]
   \<and> (\<exists>t\<in>set (todos (ex_input [ex_task ''hw'' (at_day 739313 20 0) 120 (Some 1) False] [])).
         title t = ''hw'' \<and> at_day 739313 8 0 < deadline t
         \<and> at_day 739313 19 30 < deadline t
         \<and> at_day 739313 20 0 = at_day 739313 19 30 + timedelta_minutes BLOCK_MINUTES
         \<and> (timedelta_minutes BLOCK_MINUTES dvd deadline t \<longrightarrow> at_day 739313 20 0 \<le> deadline t))"
proof -
  let ?b = "\<lparr>blk_title = ''hw'', blk_start = at_day 739313 19 30, blk_end = at_day 739313 20 0,
             kind = ''todo''\<rparr>"
  have e: "build_schedule (ex_input [ex_task ''hw'' (at_day 739313 20 0) 120 (Some 1) False] [])
      7 None None None None False (at_day 739313 8 0)
    = Inr [\<lparr>blk_title = ''hw'', blk_start = at_day 739313 19 0, blk_end = at_day 739313 19 30,
             kind = ''todo''\<rparr>, ?b]"
    by code_simp
  have m: "?b \<in> set [\<lparr>blk_title = ''hw'', blk_start = at_day 739313 19 0,
             blk_end = at_day 739313 19 30, kind = ''todo''\<rparr>, ?b]" by simp
  have k: "kind ?b = ''todo''" by simp
  from todo_block_starts_before_deadline [OF e m k] e show ?thesis by simp
qed

theorem todo_block_ends_after_deadline_counterexample:
  "build_schedule (ex_input [ex_task ''hw'' (at_day 739313 19 15) 60 (Some 1) False] [])
      7 None None None None False (at_day 739313 8 0)
    = Inr [\<lparr>blk_title = ''hw'', blk_start = at_day 739313 19 0, blk_end = at_day 739313 19 30,
             kind = ''todo''\<rparr>]
   \<and> at_day 739313 19 15 < at_day 739313 19 30"
  by code_simp

text \<open>
  C8. A task whose deadline is at or before the \<open>now\<close> of the call is skipped
  (\<open>process_todo_overdue\<close>: the state is returned unchanged, nothing is raised). Blocks
  name their task by title, so in the output: when every task with a given title is
  overdue, no block of kind todo bears that title, whatever the configuration.
\<close>

theorem overdue_task_gets_no_block:
  assumes "build_schedule parsed n sd mh sh eh cram nw = Inr out"
    and "\<forall>t\<in>set (todos parsed). title t = T \<longrightarrow> deadline t \<le> nw"
  shows "\<not> (\<exists>b\<in>set out. kind b = ''todo'' \<and> blk_title b = T)"
proof
  assume "\<exists>b\<in>set out. kind b = ''todo'' \<and> blk_title b = T"
  then obtain b where b: "b \<in> set out" "kind b = ''todo''" "blk_title b = T" by blast
  from build_schedule_todo_blocks [OF assms(1) b(1,2)] obtain t where
    "t \<in> set (todos parsed)" "nw < deadline t"
    "placed t (cfg_slots (make_config n sd mh sh eh cram nw)) b" by blast
  with b(3) assms(2) show False by (auto simp: placed_def)
qed


theorem overdue_task_gets_no_block_witness:
  "build_schedule (ex_input [ex_task ''old'' (at_day 739312 12 0) 60 (Some 1) False,
                             ex_task ''hw'' (at_day 739314 19 0) 60 (Some 2) False] [])
      7 None None None None False (at_day 739313 8 0)
    = Inr [\<lparr>blk_title = ''hw'', blk_start = at_day 739313 19 0, blk_end = at_day 739313 19 30,
             kind = ''todo''\<rparr>,
           \<lparr>blk_title = ''hw'', blk_start = at_day 739313 19 30, blk_end = at_day 739313 20 0,
             kind = ''todo''\<rparr>]
   \<and> \<not> list_ex (\<lambda>b. kind b = ''todo'' \<and> blk_title b = ''old'')
        [\<lparr>blk_title = ''hw'', blk_start = at_day 739313 19 0, blk_end = at_day 739313 19 30,
             kind = ''todo''\<rparr>,
           \<lparr>blk_title = ''hw'', blk_start = at_day 739313 19 30, blk_end = at_day 739313 20 0,
             kind = ''todo''\<rparr>]"
proof -
  have e: "build_schedule (ex_input [ex_task ''old'' (at_day 739312 12 0) 60 (Some 1) False,
                             ex_task ''hw'' (at_day 739314 19 0) 60 (Some 2) False] [])
      7 None None None None False (at_day 739313 8 0)
    = Inr [\<lparr>blk_title = ''hw'', blk_start = at_day 739313 19 0, blk_end = at_day 739313 19 30,
             kind = ''todo''\<rparr>,
           \<lparr>blk_title = ''hw'', blk_start = at_day 739313 19 30, blk_end = at_day 739313 20 0,
             kind = ''todo''\<rparr>]"
    by code_simp
  have h: "\<forall>t\<in>set (todos (ex_input [ex_task ''old'' (at_day 739312 12 0) 60 (Some 1) False,
                             ex_task ''hw'' (at_day 739314 19 0) 60 (Some 2) False] [])).
             title t = ''old'' \<longrightarrow> deadline t \<le> at_day 739313 8 0"
    by (simp add: ex_input_def ex_task_def at_day_def US_PER_DAY_def US_PER_HOUR_def US_PER_MINUTE_def)
  from overdue_task_gets_no_block [OF e h] e show ?thesis
    by (simp only: list_ex_iff) simp
qed

section \<open>No two blocks overlap\<close>

lemma overlaps_iff_inter:
  "overlaps a b \<longleftrightarrow> {blk_start a..<blk_end a} \<inter> {blk_start b..<blk_end b} \<noteq> {}"
proof
  assume "overlaps a b"
  then have "max (blk_start a) (blk_start b) \<in> {blk_start a..<blk_end a} \<inter> {blk_start b..<blk_end b}"
    by (simp add: overlaps_def)
  then show "{blk_start a..<blk_end a} \<inter> {blk_start b..<blk_end b} \<noteq> {}" by blast
next
  assume "{blk_start a..<blk_end a} \<inter> {blk_start b..<blk_end b} \<noteq> {}"
  then obtain x where "x \<in> {blk_start a..<blk_end a}" "x \<in> {blk_start b..<blk_end b}" by blast
  then have "blk_start a \<le> x" "x < blk_end a" "blk_start b \<le> x" "x < blk_end b" by simp_all
  then show "overlaps a b" by (simp add: overlaps_def)
qed

lemma overlaps_sym: "overlaps a b = overlaps b a"
  by (simp add: overlaps_def max.commute min.commute)

lemma no_overlap_sorted_wrt: "no_overlap bs = sorted_wrt (\<lambda>a b. \<not> overlaps a b) bs"
  by (induction bs) (simp_all add: list_all_iff)

lemma no_overlap_nth:
  "no_overlap bs \<longleftrightarrow> (\<forall>i j. i < j \<and> j < length bs \<longrightarrow> \<not> overlaps (bs ! i) (bs ! j))"
  by (auto simp: no_overlap_sorted_wrt sorted_wrt_iff_nth_less)

lemma no_overlap_snoc:
  "no_overlap (bs @ [b]) \<longleftrightarrow> no_overlap bs \<and> (\<forall>c\<in>set bs. \<not> overlaps c b)"
  by (auto simp: no_overlap_sorted_wrt sorted_wrt_append)

lemma no_overlap_insort:
  "no_overlap (insort_key f x bs) = no_overlap (x # bs)"
proof (induction bs)
  case Nil
  show ?case by simp
next
  case (Cons y ys)
  show ?case
  proof (cases "f x \<le> f y")
    case True
    then show ?thesis by simp
  next
    case False
    then have "no_overlap (insort_key f x (y # ys))
        = (list_all (\<lambda>c. \<not> overlaps y c) (insort_key f x ys) \<and> no_overlap (x # ys))"
      using Cons.IH by simp
    also have "\<dots> = no_overlap (x # y # ys)"
      by (auto simp: list_all_iff set_insort_key overlaps_sym [of x y])
    finally show ?thesis .
  qed
qed

lemma no_overlap_sort: "no_overlap (sort_key f bs) = no_overlap bs"
  by (induction bs) (simp_all add: no_overlap_insort list_all_iff)

lemma is_free_no_overlap:
  assumes "is_free bs s e" and "c \<in> set bs"
  shows "\<not> overlaps c \<lparr> blk_title = ttl, blk_start = s, blk_end = e, kind = k \<rparr>"
proof -
  from assms have "e \<le> blk_start c \<or> s \<ge> blk_end c" by (simp add: is_free_def list_all_iff)
  then show ?thesis by (auto simp: overlaps_def)
qed

lemma slot_loop_no_overlap:
  "slot_loop cfg todo slots ge st = Inr st' \<Longrightarrow> no_overlap (blocks st) \<Longrightarrow>
   no_overlap (blocks st')"
proof (induction slots arbitrary: st)
  case Nil
  then show ?case by (simp split: option.splits)
next
  case (Cons s rest)
  from Cons.prems(1) show ?case
  proof (cases rule: slot_loop_ConsE)
    case break
    with Cons.prems(2) show ?thesis by simp
  next
    case skip
    from Cons.IH [OF skip(3) Cons.prems(2)] show ?thesis .
  next
    case (commit e)
    have "no_overlap (blocks (commit cfg todo s e st))"
      using Cons.prems(2) is_free_no_overlap [OF commit(4)]
      by (simp add: blocks_commit no_overlap_snoc)
    from Cons.IH [OF commit(5) this] show ?thesis .
  qed
qed

lemma process_todo_no_overlap:
  assumes "process_todo cfg todo s = Inr s'" "no_overlap (fst s)"
  shows "no_overlap (fst s')"
proof (cases "deadline todo \<le> now cfg")
  case True
  with assms show ?thesis by (simp add: process_todo_def)
next
  case False
  obtain slots ge where g: "iter_study_slots (start_base cfg) (days cfg)
      (study_start_hour cfg) (study_end_hour cfg) = (slots, ge)"
    by (cases "iter_study_slots (start_base cfg) (days cfg)
      (study_start_hour cfg) (study_end_hour cfg)")
  from assms(1) False g obtain st where
    st: "slot_loop cfg todo slots ge \<lparr> blocks = fst s, day_todo_minutes = snd s,
                       remaining = estimated_time_minutes todo \<rparr> = Inr st"
    and s': "s' = (blocks st, day_todo_minutes st)"
    by (auto simp: process_todo_def split: sum.splits)
  from slot_loop_no_overlap [OF st] assms(2) s' show ?thesis by simp
qed

lemma todo_loop_no_overlap:
  "todo_loop cfg ts s = Inr s' \<Longrightarrow> no_overlap (fst s) \<Longrightarrow> no_overlap (fst s')"
proof (induction ts arbitrary: s)
  case Nil
  then show ?case by simp
next
  case (Cons t ts)
  from Cons.prems(1) obtain s1 where p: "process_todo cfg t s = Inr s1"
    and r: "todo_loop cfg ts s1 = Inr s'"
    by (auto split: sum.splits)
  from Cons.IH [OF r process_todo_no_overlap [OF p Cons.prems(2)]] show ?case .
qed

text \<open>
  C3. When the fixed events of the input are mutually non-overlapping, no two blocks of the
  output of \<open>build_schedule\<close>, fixed or todo, overlap: a slot is committed only when it
  is free of every block committed so far, and the final sort only reorders the blocks.
\<close>

theorem output_blocks_do_not_overlap:
  assumes "build_schedule parsed n sd mh sh eh cram nw = Inr out"
    and "no_overlap (map fixed_block (fixed_events parsed))"
  shows "no_overlap out"
proof -
  from assms(1) obtain ordered s where
    l: "todo_loop (make_config n sd mh sh eh cram nw) ordered
          (map fixed_block (fixed_events parsed), Map.empty) = Inr s"
    and out: "out = sort_key blk_start (fst s)"
    by (rule build_schedule_Inr)
  from todo_loop_no_overlap [OF l] assms(2) have "no_overlap (fst s)" by simp
  with out show ?thesis by (simp add: no_overlap_sort)
qed

theorem output_blocks_do_not_overlap_witness:
  "build_schedule
      (ex_input [ex_task ''hw'' (at_day 739314 19 0) 90 (Some 1) False]
                [ex_event ''class'' (at_day 739313 19 15) (at_day 739313 20 0),
                 ex_event ''lunch'' (at_day 739313 12 0) (at_day 739313 13 0)])
      7 None None None None False (at_day 739313 8 0)
    = Inr [\<lparr>blk_title = ''lunch'', blk_start = at_day 739313 12 0, blk_end = at_day 739313 13 0,
             kind = ''fixed''\<rparr>,
           \<lparr>blk_title = ''class'', blk_start = at_day 739313 19 15, blk_end = at_day 739313 20 0,
             kind = ''fixed''\<rparr>,
           \<lparr>blk_title = ''hw'', blk_start = at_day 739313 20 0, blk_end = at_day 739313 20 30,
             kind = ''todo''\<rparr>,
           \<lparr>blk_title = ''hw'', blk_start = at_day 739313 20 30, blk_end = at_day 739313 21 0,
             kind = ''todo''\<rparr>,
           \<lparr>blk_title = ''hw'', blk_start = at_day 739313 21 0, blk_end = at_day 739313 21 30,
             kind = ''todo''\<rparr>]
   \<and> no_overlap
        [\<lparr>blk_title = ''lunch'', blk_start = at_day 739313 12 0, blk_end = at_day 739313 13 0,
             kind = ''fixed''\<rparr>,
           \<lparr>blk_title = ''class'', blk_start = at_day 739313 19 15, blk_end = at_day 739313 20 0,
             kind = ''fixed''\<rparr>,
           \<lparr>blk_title = ''hw'', blk_start = at_day 739313 20 0, blk_end = at_day 739313 20 30,
             kind = ''todo''\<rparr>,
           \<lparr>blk_title = ''hw'', blk_start = at_day 739313 20 30, blk_end = at_day 739313 21 0,
             kind = ''todo''\<rparr>,
           \<lparr>blk_title = ''hw'', blk_start = at_day 739313 21 0, blk_end = at_day 739313 21 30,
             kind = ''todo''\<rparr>]"
proof -
  let ?inp = "ex_input [ex_task ''hw'' (at_day 739314 19 0) 90 (Some 1) False]
                [ex_event ''class'' (at_day 739313 19 15) (at_day 739313 20 0),
                 ex_event ''lunch'' (at_day 739313 12 0) (at_day 739313 13 0)]"
  have e: "build_schedule ?inp 7 None None None None False (at_day 739313 8 0)
    = Inr [\<lparr>blk_title = ''lunch'', blk_start = at_day 739313 12 0, blk_end = at_day 739313 13 0,
             kind = ''fixed''\<rparr>,
           \<lparr>blk_title = ''class'', blk_start = at_day 739313 19 15, blk_end = at_day 739313 20 0,
             kind = ''fixed''\<rparr>,
           \<lparr>blk_title = ''hw'', blk_start = at_day 739313 20 0, blk_end = at_day 739313 20 30,
             kind = ''todo''\<rparr>,
           \<lparr>blk_title = ''hw'', blk_start = at_day 739313 20 30, blk_end = at_day 739313 21 0,
             kind = ''todo''\<rparr>,
           \<lparr>blk_title = ''hw'', blk_start = at_day 739313 21 0, blk_end = at_day 739313 21 30,
             kind = ''todo''\<rparr>]"
    by code_simp
  have h: "no_overlap (map fixed_block (fixed_events ?inp))"
    by code_simp
  from output_blocks_do_not_overlap [OF e h] e show ?thesis by simp
qed

section \<open>Horizon and daily window\<close>

lemma date_of_combine_midnight: "date_of (combine_midnight d) = d"
  using date_of_mk [of 0 d] by (simp add: combine_midnight_def US_PER_DAY_def)

lemma slot_end_in_window:
  assumes "hour_of s < e" and "timedelta_minutes BLOCK_MINUTES dvd s"
  shows "s + timedelta_minutes BLOCK_MINUTES \<le> date_of s * US_PER_DAY + e * US_PER_HOUR"
proof -
  let ?r = "s mod US_PER_DAY"
  have "?r div 3600000000 < e" using assms(1) by (simp add: hour_of_def US_PER_HOUR_def)
  then have r: "?r < e * US_PER_HOUR" unfolding US_PER_HOUR_def by (rule hour_lt_imp)
  have "timedelta_minutes BLOCK_MINUTES dvd US_PER_DAY" by (simp add: time_defs)
  then have "timedelta_minutes BLOCK_MINUTES dvd date_of s * US_PER_DAY" by simp
  with assms(2) have "timedelta_minutes BLOCK_MINUTES dvd s - date_of s * US_PER_DAY"
    by (rule dvd_diff)
  moreover have sr: "s - date_of s * US_PER_DAY = ?r" using day_decomp [of s] by simp
  ultimately have d1: "timedelta_minutes BLOCK_MINUTES dvd ?r" by simp
  have "timedelta_minutes BLOCK_MINUTES dvd US_PER_HOUR" by (simp add: time_defs)
  then have d2: "timedelta_minutes BLOCK_MINUTES dvd e * US_PER_HOUR" by simp
  from grid_step [OF d1 d2 r] sr show ?thesis by linarith
qed

text \<open>
  C9. The claim needs the end hour of the window to be an hour of the day: with an end hour
  of 24 or more the slot loop of a day runs on past midnight, and a block can lie on a day
  after the horizon and before the start hour of its day. When the end hour in force (after
  the defaults and the normalisation of \<open>build_schedule\<close>) is at most 23, every block of
  kind todo in the output lies on one of the \<open>n\<close> days from the effective start date on,
  starts at or after the start hour of its day and ends at or before the end hour of that
  same day; hence it lies between midnight of the effective start date and midnight \<open>n\<close>
  days later.
\<close>

theorem todo_block_within_horizon_and_window:
  assumes "build_schedule parsed n sd mh sh eh cram nw = Inr out"
    and "b \<in> set out" and "kind b = ''todo''"
    and "resolve_end_hour sh eh \<le> 23"
  shows "effective_date sd nw \<le> date_of (blk_start b)
       \<and> date_of (blk_start b) < effective_date sd nw + n
       \<and> at_day (date_of (blk_start b)) (resolve_start_hour sh) 0 \<le> blk_start b
       \<and> blk_start b < blk_end b
       \<and> blk_end b \<le> at_day (date_of (blk_start b)) (resolve_end_hour sh eh) 0
       \<and> combine_midnight (effective_date sd nw) \<le> blk_start b
       \<and> blk_end b < combine_midnight (effective_date sd nw + n)"
proof -
  let ?cfg = "make_config n sd mh sh eh cram nw"
  let ?eff = "effective_date sd nw"
  let ?s = "blk_start b"
  from build_schedule_todo_blocks [OF assms(1-3)] obtain t where
    "placed t (cfg_slots ?cfg) b" by blast
  then have mem: "?s \<in> set (fst (iter_study_slots (combine_midnight ?eff) n
        (resolve_start_hour sh) (resolve_end_hour sh eh)))"
    and e: "blk_end b = ?s + timedelta_minutes BLOCK_MINUTES"
    by (simp_all add: placed_def cfg_slots_def make_config_def)
  from iter_study_slots_mem [OF mem] assms(4) obtain j where
    j: "0 \<le> j" "j < n" "0 \<le> resolve_start_hour sh"
      "(?eff + j) * US_PER_DAY + resolve_start_hour sh * US_PER_HOUR \<le> ?s"
      "hour_of ?s < resolve_end_hour sh eh"
      "timedelta_minutes BLOCK_MINUTES dvd ?s"
      "date_of ?s = ?eff + j"
    by (auto simp: date_of_combine_midnight)
  from slot_end_in_window [OF j(5,6)] e
  have w: "blk_end b \<le> date_of ?s * US_PER_DAY + resolve_end_hour sh eh * US_PER_HOUR" by simp
  have lo: "?eff * US_PER_DAY \<le> (?eff + j) * US_PER_DAY" using j(1) by (simp add: US_PER_DAY_def)
  have hi: "(?eff + j) * US_PER_DAY + US_PER_DAY \<le> (?eff + n) * US_PER_DAY"
    using j(2) by (simp add: US_PER_DAY_def algebra_simps)
  have h0: "0 \<le> resolve_start_hour sh * US_PER_HOUR" using j(3) by (simp add: US_PER_HOUR_def)
  have h1: "resolve_end_hour sh eh * US_PER_HOUR < US_PER_DAY"
    using assms(4) by (simp add: US_PER_HOUR_def US_PER_DAY_def)
  have c1: "?eff \<le> date_of ?s" "date_of ?s < ?eff + n" using j(1,2,7) by simp_all
  have c2: "at_day (date_of ?s) (resolve_start_hour sh) 0 \<le> ?s"
    using j(4,7) by (simp add: at_day_def)
  have c3: "?s < blk_end b" using e block_us_pos by simp
  have c4: "blk_end b \<le> at_day (date_of ?s) (resolve_end_hour sh eh) 0"
    using w by (simp add: at_day_def)
  have c5: "combine_midnight ?eff \<le> ?s"
    unfolding combine_midnight_def using lo h0 j(4) by linarith
  have c6: "blk_end b < combine_midnight (?eff + n)"
    unfolding combine_midnight_def using w hi h1 j(7) by simp
  from c1 c2 c3 c4 c5 c6 show ?thesis by simp
qed

theorem todo_block_within_horizon_and_window_witness:
  "build_schedule (ex_input [ex_task ''hw'' (at_day 739313 20 0) 120 (Some 1) False] [])
      7 None None None None False (at_day 739313 8 0)
    = Inr [\<lparr>blk_title = ''hw'', blk_start = at_day 739313 19 0, blk_end = at_day 739313 19 30,
             kind = ''todo''\<rparr>,
           \<lparr>blk_title = ''hw'', blk_start = at_day 739313 19 30, blk_end = at_day 739313 20 0,
             kind = ''todo''\<rparr>]
   \<and> resolve_end_hour None None = 23
   \<and> effective_date None (at_day 739313 8 0) \<le> date_of (at_day 739313 19 30)
   \<and> date_of (at_day 739313 19 30) < effective_date None (at_day 739313 8 0) + 7
   \<and> at_day (date_of (at_day 739313 19 30)) (resolve_start_hour None) 0 \<le> at_day 739313 19 30
   \<and> at_day 739313 19 30 < at_day 739313 20 0
   \<and> at_day 739313 20 0 \<le> at_day (date_of (at_day 739313 19 30)) (resolve_end_hour None None) 0
   \<and> combine_midnight (effective_date None (at_day 739313 8 0)) \<le> at_day 739313 19 30
   \<and> at_day 739313 20 0 < combine_midnight (effective_date None (at_day 739313 8 0) + 7)"
proof -
  let ?b = "\<lparr>blk_title = ''hw'', blk_start = at_day 739313 19 30, blk_end = at_day 739313 20 0,
             kind = ''todo''\<rparr>"
  have e: "build_schedule (ex_input [ex_task ''hw'' (at_day 739313 20 0) 120 (Some 1) False] [])
      7 None None None None False (at_day 739313 8 0)
    = Inr [\<lparr>blk_title = ''hw'', blk_start = at_day 739313 19 0, blk_end = at_day 739313 19 30,
             kind = ''todo''\<rparr>, ?b]"
    by code_simp
  have m: "?b \<in> set [\<lparr>blk_title = ''hw'', blk_start = at_day 739313 19 0,
             blk_end = at_day 739313 19 30, kind = ''todo''\<rparr>, ?b]" by simp
  have k: "kind ?b = ''todo''" by simp
  have h: "resolve_end_hour None None \<le> 23" by code_simp
  have h': "resolve_end_hour None None = 23" by code_simp
  from todo_block_within_horizon_and_window [OF e m k h] e h' show ?thesis by simp
qed

text \<open>With an end hour of 24 the generator does not stop at the end of the day.\<close>

lemma day_slots_prefix:
  "24 \<le> eh \<Longrightarrow> MIN_DT \<le> day \<Longrightarrow> day + int k * timedelta_minutes BLOCK_MINUTES \<le> MAX_DT \<Longrightarrow>
   \<exists>rest. fst (day_slots day eh) =
      map (\<lambda>i. day + int i * timedelta_minutes BLOCK_MINUTES) [0..<k]
      @ (day + int k * timedelta_minutes BLOCK_MINUTES) # rest"
proof (induction k arbitrary: day)
  case 0
  have h: "hour_of day < eh" using hour_of_le_23 [of day] 0(1) by simp
  show ?case
  proof (cases "MIN_DT \<le> day + timedelta_minutes BLOCK_MINUTES
            \<and> day + timedelta_minutes BLOCK_MINUTES \<le> MAX_DT")
    case True
    with h show ?thesis by (simp add: day_slots_step)
  next
    case False
    with h show ?thesis by (simp add: day_slots_overflow)
  qed
next
  case (Suc k)
  let ?B = "timedelta_minutes BLOCK_MINUTES"
  have h: "hour_of day < eh" using hour_of_le_23 [of day] Suc.prems(1) by simp
  have eq: "day + int (Suc k) * ?B = (day + ?B) + int k * ?B"
    by (simp add: algebra_simps)
  have "0 \<le> int k * ?B" using block_us_pos by simp
  with Suc.prems(3) eq have up: "day + ?B \<le> MAX_DT" by linarith
  have lo: "MIN_DT \<le> day + ?B" using Suc.prems(2) block_us_pos by linarith
  from Suc.prems(3) eq have "(day + ?B) + int k * ?B \<le> MAX_DT" by simp
  from Suc.IH [OF Suc.prems(1) lo this] obtain rest where
    r: "fst (day_slots (day + ?B) eh) =
      map (\<lambda>i. day + ?B + int i * ?B) [0..<k] @ (day + ?B + int k * ?B) # rest" by blast
  have m: "map (\<lambda>i. day + int i * ?B) [0..<Suc k]
      = day # map (\<lambda>i. day + ?B + int i * ?B) [0..<k]"
  proof -
    have "[0..<Suc k] = 0 # map Suc [0..<k]" by (simp add: upt_conv_Cons map_Suc_upt del: upt_Suc)
    then have "map (\<lambda>i. day + int i * ?B) [0..<Suc k]
        = day # map ((\<lambda>i. day + int i * ?B) \<circ> Suc) [0..<k]" by (simp del: upt_Suc)
    also have "(\<lambda>i. day + int i * ?B) \<circ> Suc = (\<lambda>i. day + ?B + int i * ?B)"
      by (rule ext) (simp add: algebra_simps)
    finally show ?thesis .
  qed
  have "fst (day_slots day eh) =
      map (\<lambda>i. day + int i * ?B) [0..<Suc k] @ (day + int (Suc k) * ?B) # rest"
    by (simp only: day_slots_step [OF h lo up] fst_conv r m eq append_Cons)
  then show ?case by blast
qed

lemma slot_loop_done:
  "slot_loop cfg todo xs None st = Inr st1 \<Longrightarrow> remaining st1 \<le> 0 \<Longrightarrow>
   slot_loop cfg todo (xs @ y # ys) ge st = Inr st1"
proof (induction xs arbitrary: st)
  case Nil
  then show ?case by simp
next
  case (Cons s rest)
  show ?case
    using Cons.prems Cons.IH
    by (auto split: sum.splits bool.splits if_splits)
qed


lemma cx_run:
  "(case slot_loop (make_config 1 None None (Some 19) (Some 24) False (at_day 739313 8 0)) cx_task
     (map (\<lambda>i. at_day 739313 19 0 + int i * timedelta_minutes BLOCK_MINUTES) [0..<11]) None
     \<lparr> blocks = [], day_todo_minutes = Map.empty, remaining = 330 \<rparr> of
      Inl e \<Rightarrow> None | Inr st \<Rightarrow> Some (blocks st, remaining st))
   = Some (cx_blocks, 0)"
  by code_simp

theorem block_outside_window_counterexample:
  "build_schedule (ex_input [cx_task] []) 1 None None (Some 19) (Some 24) False (at_day 739313 8 0)
     = Inr cx_blocks
   \<and> effective_date None (at_day 739313 8 0) = 739313
   \<and> blk_start (cx_blocks ! 10) = at_day 739314 0 0
   \<and> \<not> date_of (at_day 739314 0 0) < 739313 + 1
   \<and> \<not> at_day (date_of (at_day 739314 0 0)) 19 0 \<le> at_day 739314 0 0"
proof -
  let ?cfg = "make_config 1 None None (Some 19) (Some 24) False (at_day 739313 8 0)"
  let ?day = "at_day 739313 19 0"
  let ?B = "timedelta_minutes BLOCK_MINUTES"
  let ?st0 = "\<lparr> blocks = [], day_todo_minutes = Map.empty, remaining = 330 \<rparr>"
  have "\<exists>rest. fst (day_slots ?day 24) = map (\<lambda>i. ?day + int i * ?B) [0..<11]
      @ (?day + int 11 * ?B) # rest"
    by (rule day_slots_prefix) (simp_all add: at_day_def MIN_DT_def MAX_DT_def time_defs)
  then obtain rest where pre: "fst (day_slots ?day 24) =
      map (\<lambda>i. ?day + int i * ?B) [0..<11] @ (?day + int 11 * ?B) # rest" by blast
  from cx_run obtain st1 where run: "slot_loop ?cfg cx_task
      (map (\<lambda>i. ?day + int i * ?B) [0..<11]) None ?st0 = Inr st1"
    and st1: "blocks st1 = cx_blocks" "remaining st1 = 0"
    by (auto split: sum.splits)
  have t: "add_timedelta (at_day 739313 0 0) (timedelta_days 0) = Inr (at_day 739313 0 0)"
    by code_simp
  have d: "replace_hour (at_day 739313 0 0) 19 = Inr ?day"
    by code_simp
  have cfg: "start_base ?cfg = at_day 739313 0 0" "days ?cfg = 1" "study_start_hour ?cfg = 19"
    "study_end_hour ?cfg = 24" "now ?cfg = at_day 739313 8 0"
    by code_simp+
  have fst_slots: "fst (iter_study_slots (at_day 739313 0 0) 1 19 24) = fst (day_slots ?day 24)"
    unfolding iter_study_slots_def
    by (simp only: nat_1 One_nat_def iter_days_Suc_fst [OF t d]) simp
  have loop: "slot_loop ?cfg cx_task (fst (iter_study_slots (at_day 739313 0 0) 1 19 24))
      (snd (iter_study_slots (at_day 739313 0 0) 1 19 24)) ?st0 = Inr st1"
    unfolding fst_slots pre using run st1(2) by (intro slot_loop_done) simp_all
  have live: "\<not> deadline cx_task \<le> at_day 739313 8 0" by code_simp
  have est: "estimated_time_minutes cx_task = 330" by code_simp
  have "process_todo ?cfg cx_task ([], Map.empty) = Inr (blocks st1, day_todo_minutes st1)"
    unfolding process_todo_def cfg using live loop est
    by (simp add: split_beta)
  then have tl: "todo_loop ?cfg [cx_task] ([], Map.empty) = Inr (cx_blocks, day_todo_minutes st1)"
    by (simp add: st1)
  have ord: "order_todos (map normalize (todos (ex_input [cx_task] []))) = Inr [cx_task]"
    by code_simp
  have fx: "map fixed_block (fixed_events (ex_input [cx_task] [])) = []"
    by code_simp
  have srt: "sort_key blk_start cx_blocks = cx_blocks" by code_simp
  have "build_schedule (ex_input [cx_task] []) 1 None None (Some 19) (Some 24) False
      (at_day 739313 8 0) = Inr cx_blocks"
    unfolding build_schedule_def by (simp add: Let_def ord fx tl srt del: todo_loop.simps)
  moreover have "effective_date None (at_day 739313 8 0) = 739313
   \<and> blk_start (cx_blocks ! 10) = at_day 739314 0 0
   \<and> \<not> date_of (at_day 739314 0 0) < 739313 + 1
   \<and> \<not> at_day (date_of (at_day 739314 0 0)) 19 0 \<le> at_day 739314 0 0"
    by code_simp
  ultimately show ?thesis by simp
qed

section \<open>Minutes committed to a task\<close>

lemma round_up_less: "round_up_to_block m < m + BLOCK_MINUTES"
  unfolding round_up_to_block_def BLOCK_MINUTES_def by simp

lemma round_up_ge: "m \<le> round_up_to_block m"
  unfolding round_up_to_block_def BLOCK_MINUTES_def by simp

lemma round_up_exact: "BLOCK_MINUTES dvd m \<Longrightarrow> round_up_to_block m = m"
  unfolding round_up_to_block_def BLOCK_MINUTES_def by (elim dvdE) simp

lemma blocks_le_round_up:
  assumes "int k * BLOCK_MINUTES < m + BLOCK_MINUTES"
  shows "int k * BLOCK_MINUTES \<le> round_up_to_block m"
proof -
  from assms have "int k * 30 \<le> m + 30 - 1" by (simp add: BLOCK_MINUTES_def)
  then have "(int k * 30) div 30 \<le> (m + 30 - 1) div 30" by (rule zdiv_mono1) simp
  then have "int k \<le> (m + 30 - 1) div 30" by simp
  then have "int k * 30 \<le> (m + 30 - 1) div 30 * 30" by simp
  then show ?thesis by (simp add: round_up_to_block_def BLOCK_MINUTES_def)
qed

lemma sum_filter_insort:
  "sum_list (map (g :: 'a \<Rightarrow> int) (filter P (insort_key f x xs)))
     = sum_list (map g (filter P (x # xs)))"
  by (induction xs) auto

lemma sum_filter_sort:
  "sum_list (map (g :: 'a \<Rightarrow> int) (filter P (sort_key f xs))) = sum_list (map g (filter P xs))"
proof (induction xs)
  case Nil
  show ?case by simp
next
  case (Cons x xs)
  have "sum_list (map g (filter P (sort_key f (x # xs))))
      = sum_list (map g (filter P (x # sort_key f xs)))"
    by (simp only: sort_key_simps sum_filter_insort)
  also have "\<dots> = sum_list (map g (filter P (x # xs)))" using Cons.IH by simp
  finally show ?case .
qed

lemma todo_minutes_append: "todo_minutes T (bs @ cs) = todo_minutes T bs + todo_minutes T cs"
  by (simp add: todo_minutes_def)

lemma block_minutes_placed: "placed todo slots b \<Longrightarrow> block_minutes b = BLOCK_MINUTES"
  by (simp add: placed_def block_minutes_def timedelta_minutes_def US_PER_MINUTE_def)

lemma todo_minutes_placed:
  "\<forall>b\<in>set new. placed todo slots b \<Longrightarrow>
   todo_minutes T new = (if title todo = T then int (length new) * BLOCK_MINUTES else 0)"
proof (induction new)
  case Nil
  show ?case by (simp add: todo_minutes_def)
next
  case (Cons b new)
  then have b: "placed todo slots b" and IH: "todo_minutes T new =
      (if title todo = T then int (length new) * BLOCK_MINUTES else 0)" by simp_all
  from b have k: "kind b = ''todo''" "blk_title b = title todo" by (simp_all add: placed_def)
  have "todo_minutes T (b # new) =
      (if title todo = T then block_minutes b else 0) + todo_minutes T new"
    using k by (simp add: todo_minutes_def)
  with IH block_minutes_placed [OF b] show ?case by (simp add: algebra_simps)
qed

lemma slot_loop_remaining:
  "slot_loop cfg todo slots ge st = Inr st' \<Longrightarrow>
   int (length (blocks st')) * BLOCK_MINUTES + remaining st'
     = int (length (blocks st)) * BLOCK_MINUTES + remaining st
   \<and> (remaining st' = remaining st \<or> - BLOCK_MINUTES < remaining st')"
proof (induction slots arbitrary: st)
  case Nil
  then show ?case by (simp split: option.splits)
next
  case (Cons s rest)
  from Cons.prems show ?case
  proof (cases rule: slot_loop_ConsE)
    case break
    then show ?thesis by simp
  next
    case skip
    from Cons.IH [OF skip(3)] show ?thesis .
  next
    case (commit e)
    from Cons.IH [OF commit(5)] commit(2) show ?thesis
      by (auto simp: blocks_commit remaining_commit algebra_simps)
  qed
qed

lemma slot_loop_minutes:
  assumes "slot_loop cfg todo slots ge st = Inr st'" and "0 < remaining st"
  shows "todo_minutes T (blocks st') \<le> todo_minutes T (blocks st)
           + (if title todo = T then round_up_to_block (remaining st) else 0)"
proof -
  from slot_loop_blocks [OF assms(1)] obtain new where
    new: "blocks st' = blocks st @ new" "\<forall>b\<in>set new. placed todo slots b" by blast
  from slot_loop_remaining [OF assms(1)] new(1)
  have len: "int (length new) * BLOCK_MINUTES = remaining st - remaining st'"
    and r: "remaining st' = remaining st \<or> - BLOCK_MINUTES < remaining st'"
    by (simp_all add: algebra_simps)
  from len r assms(2) have "int (length new) * BLOCK_MINUTES < remaining st + BLOCK_MINUTES"
    by (auto simp: BLOCK_MINUTES_def)
  then have "int (length new) * BLOCK_MINUTES \<le> round_up_to_block (remaining st)"
    by (rule blocks_le_round_up)
  with new todo_minutes_placed [OF new(2), of T] show ?thesis
    by (simp add: todo_minutes_append)
qed

lemma process_todo_minutes:
  assumes "process_todo cfg todo s = Inr s'" and "0 < estimated_time_minutes todo"
  shows "todo_minutes T (fst s') \<le> todo_minutes T (fst s)
           + (if title todo = T then round_up_to_block (estimated_time_minutes todo) else 0)"
proof (cases "deadline todo \<le> now cfg")
  case True
  with assms(1) have "s' = s" by (simp add: process_todo_def)
  moreover have "0 \<le> round_up_to_block (estimated_time_minutes todo)"
    using round_up_ge [of "estimated_time_minutes todo"] assms(2) by simp
  ultimately show ?thesis by simp
next
  case False
  obtain slots ge where g: "iter_study_slots (start_base cfg) (days cfg)
      (study_start_hour cfg) (study_end_hour cfg) = (slots, ge)"
    by (cases "iter_study_slots (start_base cfg) (days cfg)
      (study_start_hour cfg) (study_end_hour cfg)")
  from assms(1) False g obtain st where
    st: "slot_loop cfg todo slots ge \<lparr> blocks = fst s, day_todo_minutes = snd s,
                       remaining = estimated_time_minutes todo \<rparr> = Inr st"
    and s': "s' = (blocks st, day_todo_minutes st)"
    by (auto simp: process_todo_def split: sum.splits)
  have "0 < remaining \<lparr> blocks = fst s, day_todo_minutes = snd s,
                       remaining = estimated_time_minutes todo \<rparr>"
    using assms(2) by simp
  from slot_loop_minutes [OF st this, of T] s' show ?thesis by (auto split: if_splits)
qed

lemma todo_loop_minutes:
  "todo_loop cfg ts s = Inr s' \<Longrightarrow> \<forall>t\<in>set ts. 0 < estimated_time_minutes t \<Longrightarrow>
   todo_minutes T (fst s') \<le> todo_minutes T (fst s) + title_budget T ts"
proof (induction ts arbitrary: s)
  case Nil
  then show ?case by (simp add: title_budget_def)
next
  case (Cons t ts)
  from Cons.prems(1) obtain s1 where p: "process_todo cfg t s = Inr s1"
    and r: "todo_loop cfg ts s1 = Inr s'"
    by (auto split: sum.splits)
  from Cons.prems(2) have pos: "0 < estimated_time_minutes t"
    and rest: "\<forall>u\<in>set ts. 0 < estimated_time_minutes u" by simp_all
  from process_todo_minutes [OF p pos, of T] Cons.IH [OF r rest]
  show ?case by (auto simp: title_budget_def split: if_splits)
qed

lemma estimate_normalize_pos: "0 < estimated_time_minutes (normalize t)"
  by (simp add: normalize_def)

lemma title_budget_order:
  "order_todos ts = Inr ordered \<Longrightarrow> title_budget T ordered = title_budget T ts"
  by (auto simp: order_todos_def sort_by_priority_def title_budget_def sum_filter_sort
      split: if_splits)

lemma todo_minutes_fixed: "todo_minutes T (map fixed_block evs) = 0"
  by (induction evs) (simp_all add: todo_minutes_def fixed_block_def)

lemma todo_minutes_le_budget:
  assumes "build_schedule parsed n sd mh sh eh cram nw = Inr out"
  shows "todo_minutes T out \<le> title_budget T (map normalize (todos parsed))"
proof -
  from assms obtain ordered s where
    o: "order_todos (map normalize (todos parsed)) = Inr ordered"
    and l: "todo_loop (make_config n sd mh sh eh cram nw) ordered
          (map fixed_block (fixed_events parsed), Map.empty) = Inr s"
    and out: "out = sort_key blk_start (fst s)"
    by (rule build_schedule_Inr)
  have "\<forall>t\<in>set ordered. 0 < estimated_time_minutes t"
    using set_order_todos [OF o] by (auto simp: estimate_normalize_pos)
  from todo_loop_minutes [OF l this, of T]
  have "todo_minutes T (fst s) \<le> title_budget T ordered" by (simp add: todo_minutes_fixed)
  moreover have "todo_minutes T out = todo_minutes T (fst s)"
    unfolding out todo_minutes_def by (rule sum_filter_sort)
  ultimately show ?thesis by (simp add: title_budget_order [OF o])
qed

text \<open>
  C1. Blocks are whole slots, and the loop goes on while the remaining minutes are
  positive, so an estimate that is not a multiple of \<open>BLOCK_MINUTES\<close> is exceeded by
  less than one slot; and blocks name their task by title only. For every title, the minutes
  of the blocks of kind todo with that title are at most the sum, over the tasks of the
  input with that title, of the normalised estimate rounded up to whole slots. For a task
  that is the only one with its title, they are less than its normalised estimate plus
  \<open>BLOCK_MINUTES\<close>, and at most the estimate when it is a multiple of
  \<open>BLOCK_MINUTES\<close>.
\<close>

theorem committed_minutes_within_rounded_estimate:
  assumes "build_schedule parsed n sd mh sh eh cram nw = Inr out"
  shows "todo_minutes T out \<le> title_budget T (map normalize (todos parsed))
    \<and> (filter (\<lambda>u. title u = T) (todos parsed) = [t] \<longrightarrow>
         todo_minutes T out < estimated_time_minutes (normalize t) + BLOCK_MINUTES
         \<and> (BLOCK_MINUTES dvd estimated_time_minutes (normalize t) \<longrightarrow>
              todo_minutes T out \<le> estimated_time_minutes (normalize t)))"
proof (intro conjI impI)
  show le: "todo_minutes T out \<le> title_budget T (map normalize (todos parsed))"
    using assms by (rule todo_minutes_le_budget)
  assume one: "filter (\<lambda>u. title u = T) (todos parsed) = [t]"
  have "filter (\<lambda>u. title u = T) (map normalize (todos parsed))
      = map normalize (filter (\<lambda>u. title u = T) (todos parsed))"
    by (simp add: filter_map comp_def title_normalize)
  with one have b: "title_budget T (map normalize (todos parsed))
      = round_up_to_block (estimated_time_minutes (normalize t))"
    by (simp add: title_budget_def)
  from le b round_up_less [of "estimated_time_minutes (normalize t)"]
  show "todo_minutes T out < estimated_time_minutes (normalize t) + BLOCK_MINUTES" by simp
  assume "BLOCK_MINUTES dvd estimated_time_minutes (normalize t)"
  from le b round_up_exact [OF this]
  show "todo_minutes T out \<le> estimated_time_minutes (normalize t)" by simp
qed

theorem committed_minutes_within_rounded_estimate_witness:
  "build_schedule (ex_input [ex_task ''hw'' (at_day 739314 19 0) 60 (Some 1) False] [])
      7 None None None None False (at_day 739313 8 0)
    = Inr [\<lparr>blk_title = ''hw'', blk_start = at_day 739313 19 0, blk_end = at_day 739313 19 30, kind = ''todo''\<rparr>,
           \<lparr>blk_title = ''hw'', blk_start = at_day 739313 19 30, blk_end = at_day 739313 20 0, kind = ''todo''\<rparr>]
   \<and> todo_minutes ''hw''
        [\<lparr>blk_title = ''hw'', blk_start = at_day 739313 19 0, blk_end = at_day 739313 19 30, kind = ''todo''\<rparr>,
         \<lparr>blk_title = ''hw'', blk_start = at_day 739313 19 30, blk_end = at_day 739313 20 0, kind = ''todo''\<rparr>]
      \<le> title_budget ''hw''
          (map normalize (todos (ex_input [ex_task ''hw'' (at_day 739314 19 0) 60 (Some 1) False] [])))
   \<and> todo_minutes ''hw''
        [\<lparr>blk_title = ''hw'', blk_start = at_day 739313 19 0, blk_end = at_day 739313 19 30, kind = ''todo''\<rparr>,
         \<lparr>blk_title = ''hw'', blk_start = at_day 739313 19 30, blk_end = at_day 739313 20 0, kind = ''todo''\<rparr>]
      \<le> estimated_time_minutes (normalize (ex_task ''hw'' (at_day 739314 19 0) 60 (Some 1) False))
   \<and> estimated_time_minutes (normalize (ex_task ''hw'' (at_day 739314 19 0) 60 (Some 1) False))
      = 60"
proof -
  let ?t = "ex_task ''hw'' (at_day 739314 19 0) 60 (Some 1) False"
  have e: "build_schedule (ex_input [?t] [])
      7 None None None None False (at_day 739313 8 0)
    = Inr [\<lparr>blk_title = ''hw'', blk_start = at_day 739313 19 0, blk_end = at_day 739313 19 30, kind = ''todo''\<rparr>,
           \<lparr>blk_title = ''hw'', blk_start = at_day 739313 19 30, blk_end = at_day 739313 20 0, kind = ''todo''\<rparr>]"
    by code_simp
  have f: "filter (\<lambda>u. title u = ''hw'') (todos (ex_input [?t] [])) = [?t]"
    by (simp add: ex_input_def ex_task_def)
  have m: "estimated_time_minutes (normalize ?t) = 60" by code_simp
  have d: "BLOCK_MINUTES dvd estimated_time_minutes (normalize ?t)"
    unfolding m by (simp add: BLOCK_MINUTES_def)
  from committed_minutes_within_rounded_estimate [OF e, of "''hw''" ?t] e f m d
  show ?thesis by simp
qed

theorem committed_minutes_exceed_estimate_counterexample:
  "build_schedule (ex_input [ex_task ''hw'' (at_day 739314 19 0) 45 (Some 1) False] [])
      7 None None None None False (at_day 739313 8 0)
    = Inr [\<lparr>blk_title = ''hw'', blk_start = at_day 739313 19 0, blk_end = at_day 739313 19 30, kind = ''todo''\<rparr>,
           \<lparr>blk_title = ''hw'', blk_start = at_day 739313 19 30, blk_end = at_day 739313 20 0, kind = ''todo''\<rparr>]
   \<and> todo_minutes ''hw''
        [\<lparr>blk_title = ''hw'', blk_start = at_day 739313 19 0, blk_end = at_day 739313 19 30, kind = ''todo''\<rparr>,
         \<lparr>blk_title = ''hw'', blk_start = at_day 739313 19 30, blk_end = at_day 739313 20 0, kind = ''todo''\<rparr>] = 60
   \<and> estimated_time_minutes (normalize (ex_task ''hw'' (at_day 739314 19 0) 45 (Some 1) False)) = 45"
  by code_simp

section \<open>The cram-mode test\<close>



text \<open>The slots the generator yields, for window hours within 0..23.\<close>

lemma hour_of_grid:
  assumes "0 \<le> sh" "2 * sh + int k < 48"
  shows "hour_of (d * US_PER_DAY + sh * US_PER_HOUR + int k * timedelta_minutes BLOCK_MINUTES)
         = sh + int k div 2"
proof -
  define x where "x = 2 * sh + int k"
  have x: "0 \<le> x" "x < 48" using assms by (simp_all add: x_def)
  have r: "0 \<le> 1800000000 * x" "1800000000 * x < 86400000000" using x by simp_all
  have "(d * 86400000000 + 1800000000 * x) mod 86400000000 = (1800000000 * x) mod 86400000000"
    by (rule mod_mult_self3)
  also have "\<dots> = 1800000000 * x" using r by (rule mod_pos_pos_trivial)
  finally have m: "(d * 86400000000 + 1800000000 * x) mod 86400000000 = 1800000000 * x" .
  have "(1800000000 * x) div (1800000000 * 2) = x div 2"
    by (rule div_mult_mult1) simp
  then have dv: "(1800000000 * x) div 3600000000 = x div 2" by simp
  have "x div 2 = sh + int k div 2" unfolding x_def by simp
  with dv have dv': "(1800000000 * x) div 3600000000 = sh + int k div 2" by simp
  have t: "d * US_PER_DAY + sh * US_PER_HOUR + int k * timedelta_minutes BLOCK_MINUTES
      = d * 86400000000 + 1800000000 * x"
    unfolding x_def US_PER_DAY_def US_PER_HOUR_def timedelta_minutes_def BLOCK_MINUTES_def
      US_PER_MINUTE_def by (simp add: ring_distribs)
  show ?thesis
    unfolding hour_of_def t unfolding US_PER_DAY_def US_PER_HOUR_def m dv' ..
qed


lemma grid_point:
  "at_day d sh 0 + int k * timedelta_minutes BLOCK_MINUTES
     = d * 86400000000 + sh * 3600000000 + int k * 1800000000"
  by (simp add: at_day_def US_PER_DAY_def US_PER_HOUR_def US_PER_MINUTE_def
      timedelta_minutes_def BLOCK_MINUTES_def)

lemma hour_of_grid_point:
  assumes "0 \<le> sh" "2 * sh + int k < 48"
  shows "hour_of (at_day d sh 0 + int k * timedelta_minutes BLOCK_MINUTES) = sh + int k div 2"
  using hour_of_grid [OF assms, of d] by (simp add: at_day_def)

lemma day_slots_window:
  assumes "0 \<le> sh" "sh \<le> 23" "eh \<le> 23" "1 \<le> d" "d \<le> 3652059"
    and "K = nat (2 * (eh - sh))"
  shows "k \<le> K \<Longrightarrow>
    day_slots (at_day d sh 0 + int k * timedelta_minutes BLOCK_MINUTES) eh
      = (map (\<lambda>i. at_day d sh 0 + int i * timedelta_minutes BLOCK_MINUTES) [k..<K], None)"
proof (induction "K - k" arbitrary: k)
  case 0
  then have k: "k = K" by simp
  have "2 * sh + int k < 48" using assms(2,3,6) k by auto
  from hour_of_grid_point [OF assms(1) this, of d]
  have "\<not> hour_of (at_day d sh 0 + int k * timedelta_minutes BLOCK_MINUTES) < eh"
    using assms(6) k by auto
  then show ?case using k by (simp add: day_slots_stop)
next
  case (Suc m)
  let ?t = "at_day d sh 0 + int k * timedelta_minutes BLOCK_MINUTES"
  from Suc.hyps(2) have lt: "k < K" by simp
  with assms(6) have kk: "int k < 2 * (eh - sh)" by auto
  then have small: "2 * sh + int k < 48" using assms(3) by simp
  from hour_of_grid_point [OF assms(1) small, of d] kk
  have h: "hour_of ?t < eh" by auto
  have next_eq: "?t + timedelta_minutes BLOCK_MINUTES
      = at_day d sh 0 + int (Suc k) * timedelta_minutes BLOCK_MINUTES"
    by (simp add: algebra_simps)
  have val: "?t + timedelta_minutes BLOCK_MINUTES
      = d * 86400000000 + sh * 3600000000 + int (Suc k) * 1800000000"
    unfolding next_eq by (rule grid_point)
  have lo: "MIN_DT \<le> ?t + timedelta_minutes BLOCK_MINUTES"
    unfolding val MIN_DT_def US_PER_DAY_def using assms(1,4) by simp
  have up: "?t + timedelta_minutes BLOCK_MINUTES \<le> MAX_DT"
    unfolding val MAX_DT_def US_PER_DAY_def using assms(3,5) kk by simp
  have "Suc k \<le> K" using lt by simp
  moreover have "m = K - Suc k" using Suc.hyps(2) by simp
  ultimately have IH: "day_slots (at_day d sh 0 + int (Suc k) * timedelta_minutes BLOCK_MINUTES) eh
      = (map (\<lambda>i. at_day d sh 0 + int i * timedelta_minutes BLOCK_MINUTES) [Suc k..<K], None)"
    using Suc.hyps(1) by blast
  have "[k..<K] = k # [Suc k..<K]" using lt by (rule upt_conv_Cons)
  then show ?case
    by (simp only: day_slots_step [OF h lo up] next_eq IH fst_conv snd_conv list.map)
qed


lemma in_range_of_date:
  assumes "1 \<le> date_of t" "date_of t \<le> 3652059"
  shows "MIN_DT \<le> t \<and> t \<le> MAX_DT"
proof -
  have t: "t = date_of t * 86400000000 + t mod 86400000000"
    using day_decomp [of t] by (simp add: US_PER_DAY_def)
  have "0 \<le> t mod 86400000000" "t mod 86400000000 < 86400000000" by simp_all
  with t assms show ?thesis unfolding MIN_DT_def MAX_DT_def US_PER_DAY_def by linarith
qed

lemma upt_Suc_shift: "map f [0..<Suc n] = f 0 # map (\<lambda>j. f (Suc j)) [0..<n]"
proof -
  have "[0..<Suc n] = 0 # map Suc [0..<n]"
    by (simp add: upt_conv_Cons map_Suc_upt del: upt_Suc)
  then show ?thesis by (simp add: comp_def del: upt_Suc)
qed

lemma iter_days_window:
  assumes "0 \<le> sh" "sh \<le> 23" "eh \<le> 23"
  shows "1 \<le> date_of start + d \<Longrightarrow> date_of start + d + int n \<le> 3652060 \<Longrightarrow>
     iter_days start sh eh d n =
       (concat (map (\<lambda>j. map (\<lambda>k. at_day (date_of start + d + int j) sh 0
                                   + int k * timedelta_minutes BLOCK_MINUTES)
                             [0..<nat (2 * (eh - sh))])
                    [0..<n]), None)"
proof (induction n arbitrary: d)
  case 0
  show ?case by simp
next
  case (Suc n)
  let ?D = "date_of start + d"
  let ?row = "\<lambda>D. map (\<lambda>k. at_day D sh 0 + int k * timedelta_minutes BLOCK_MINUTES)
                             [0..<nat (2 * (eh - sh))]"
  have dt: "date_of (start + timedelta_days d) = ?D" by (rule date_of_add_days)
  have D: "1 \<le> ?D" "?D \<le> 3652059" using Suc.prems by simp_all
  with dt have "MIN_DT \<le> start + timedelta_days d \<and> start + timedelta_days d \<le> MAX_DT"
    by (intro in_range_of_date) simp_all
  then have a: "add_timedelta start (timedelta_days d) = Inr (start + timedelta_days d)"
    by (simp add: add_timedelta_def)
  have r: "replace_hour (start + timedelta_days d) sh = Inr (at_day ?D sh 0)"
    using assms(1,2) dt by (simp add: replace_hour_def at_day_def)
  have "day_slots (at_day ?D sh 0 + int 0 * timedelta_minutes BLOCK_MINUTES) eh
      = (map (\<lambda>i. at_day ?D sh 0 + int i * timedelta_minutes BLOCK_MINUTES)
           [0..<nat (2 * (eh - sh))], None)"
    using assms D by (intro day_slots_window) simp_all
  then have ds: "day_slots (at_day ?D sh 0) eh = (?row ?D, None)" by simp
  have "1 \<le> date_of start + (d + 1)" "date_of start + (d + 1) + int n \<le> 3652060"
    using Suc.prems by simp_all
  from Suc.IH [OF this]
  have IH: "iter_days start sh eh (d + 1) n
      = (concat (map (\<lambda>j. ?row (date_of start + (d + 1) + int j)) [0..<n]), None)" .
  have sh: "(\<lambda>j. ?row (?D + int (Suc j))) = (\<lambda>j. ?row (date_of start + (d + 1) + int j))"
    by (rule ext) (simp add: algebra_simps)
  have "concat (map (\<lambda>j. ?row (?D + int j)) [0..<Suc n])
      = ?row ?D @ concat (map (\<lambda>j. ?row (date_of start + (d + 1) + int j)) [0..<n])"
    by (simp only: upt_Suc_shift [of "\<lambda>j. ?row (?D + int j)"] sh concat.simps) simp
  then show ?case
    by (simp only: iter_days.simps a r ds IH sum.case prod.case option.case)
qed

lemma iter_study_slots_window:
  assumes "0 \<le> sh" "sh \<le> 23" "eh \<le> 23"
    and "1 \<le> date_of start" "date_of start + max n 0 \<le> 3652060"
  shows "iter_study_slots start n sh eh = (window_slots (date_of start) n sh eh, None)"
proof -
  have "int (nat n) = max n 0" by simp
  with assms(4,5) have "1 \<le> date_of start + 0" "date_of start + 0 + int (nat n) \<le> 3652060"
    by simp_all
  from iter_days_window [OF assms(1-3) this] show ?thesis
    by (simp add: iter_study_slots_def window_slots_def)
qed

text \<open>The capacity estimate as a count of occupied slots.\<close>

lemma cram_scan_count:
  "cram_scan bs slots ge n0 = Inr m \<Longrightarrow>
   m = n0 - BLOCK_MINUTES *
         int (length (filter (\<lambda>x. \<not> is_free bs x (x + timedelta_minutes BLOCK_MINUTES)) slots))"
proof (induction slots arbitrary: n0)
  case Nil
  then show ?case by (simp split: option.splits)
next
  case (Cons x rest)
  from Cons.prems obtain e where e: "add_timedelta x (timedelta_minutes BLOCK_MINUTES) = Inr e"
    and r: "cram_scan bs rest ge
        (if \<not> is_free bs x e then n0 - BLOCK_MINUTES else n0) = Inr m"
    by (auto split: sum.splits)
  from add_timedelta_Inr [OF e] have e': "e = x + timedelta_minutes BLOCK_MINUTES" .
  from Cons.IH [OF r] e' show ?case by (simp add: algebra_simps)
qed

lemma cram_num_of_minutes_Inr:
  assumes "cram_num_of_minutes cfg todo bs s = Inr m"
  shows "\<exists>cap. max_minutes_per_day cfg = Some cap \<and> m = capacity_estimate cfg todo bs s cap"
proof -
  from assms obtain cap where cap: "max_minutes_per_day cfg = Some cap"
    by (auto simp: cram_num_of_minutes_def Let_def split: option.splits)
  obtain slots ge where g: "iter_study_slots s (day_of (deadline todo) - day_of s - 1 + 2)
      (study_start_hour cfg) (study_end_hour cfg) = (slots, ge)"
    by (cases "iter_study_slots s (day_of (deadline todo) - day_of s - 1 + 2)
      (study_start_hour cfg) (study_end_hour cfg)")
  have d: "day_of (deadline todo) - day_of s - 1 + 2 = day_of (deadline todo) - day_of s + 1"
    by simp
  from assms cap g have "cram_scan bs slots ge
      ((day_of (deadline todo) - day_of s - 1) * cap
       + max (study_end_hour cfg - hour_of s) 0 * 60
       + max (hour_of (deadline todo) - study_start_hour cfg) 0 * 60) = Inr m"
    by (simp add: cram_num_of_minutes_def Let_def)
  from cram_scan_count [OF this] g have "m = capacity_estimate cfg todo bs s cap"
    unfolding capacity_estimate_def d [symmetric] by simp
  with cap show ?thesis by blast
qed

text \<open>With a cap, window hours within 0..23 and dates in range, the cram test completes.\<close>

lemma cram_scan_total:
  "\<forall>x\<in>set slots. MIN_DT \<le> x + timedelta_minutes BLOCK_MINUTES
       \<and> x + timedelta_minutes BLOCK_MINUTES \<le> MAX_DT \<Longrightarrow>
   \<exists>m. cram_scan bs slots None n0 = Inr m"
  by (induction slots arbitrary: n0) (simp_all add: add_timedelta_def)

lemma window_slots_range:
  assumes "0 \<le> sh" "eh \<le> 23" "1 \<le> d0" "d0 + max n 0 \<le> 3652060"
    and "x \<in> set (window_slots d0 n sh eh)"
  shows "MIN_DT \<le> x + timedelta_minutes BLOCK_MINUTES
       \<and> x + timedelta_minutes BLOCK_MINUTES \<le> MAX_DT"
proof -
  from assms(5) obtain j k where j: "j < nat n" and k: "k < nat (2 * (eh - sh))"
    and x: "x = at_day (d0 + int j) sh 0 + int k * timedelta_minutes BLOCK_MINUTES"
    by (auto simp: window_slots_def)
  have v: "x + timedelta_minutes BLOCK_MINUTES
      = (d0 + int j) * 86400000000 + sh * 3600000000 + int (Suc k) * 1800000000"
    unfolding x using grid_point [of "d0 + int j" sh "Suc k"] by (simp add: algebra_simps)
  from k have kk: "int (Suc k) \<le> 2 * (eh - sh)" by simp
  from j assms(4) have jj: "d0 + int j + 1 \<le> 3652060" by simp
  have "(d0 + int j + 1) * 86400000000 \<le> 3652060 * 86400000000"
    using jj by simp
  moreover have "d0 * 86400000000 \<le> (d0 + int j) * 86400000000" by simp
  moreover have "1 * 86400000000 \<le> d0 * 86400000000" using assms(3) by simp
  ultimately show ?thesis
    unfolding v MIN_DT_def MAX_DT_def US_PER_DAY_def using assms(1,2) kk by simp
qed

lemma cram_num_of_minutes_total:
  assumes "max_minutes_per_day cfg = Some cap"
    and "0 \<le> study_start_hour cfg" "study_start_hour cfg \<le> 23" "study_end_hour cfg \<le> 23"
    and "1 \<le> date_of s"
    and "date_of s + max (day_of (deadline todo) - day_of s + 1) 0 \<le> 3652060"
  shows "cram_num_of_minutes cfg todo bs s = Inr (capacity_estimate cfg todo bs s cap)"
proof -
  let ?n = "day_of (deadline todo) - day_of s + 1"
  let ?W = "window_slots (date_of s) ?n (study_start_hour cfg) (study_end_hour cfg)"
  have d: "day_of (deadline todo) - day_of s - 1 + 2 = ?n" by simp
  have g: "iter_study_slots s ?n (study_start_hour cfg) (study_end_hour cfg) = (?W, None)"
    using assms(2-6) by (rule iter_study_slots_window)
  have "\<forall>x\<in>set ?W. MIN_DT \<le> x + timedelta_minutes BLOCK_MINUTES
       \<and> x + timedelta_minutes BLOCK_MINUTES \<le> MAX_DT"
    using window_slots_range [OF assms(2,4,5,6)] by blast
  from cram_scan_total [OF this] obtain m where
    m: "cram_scan bs ?W None
      ((day_of (deadline todo) - day_of s - 1) * cap
       + max (study_end_hour cfg - hour_of s) 0 * 60
       + max (hour_of (deadline todo) - study_start_hour cfg) 0 * 60) = Inr m" by blast
  then have c: "cram_num_of_minutes cfg todo bs s = Inr m"
    using assms(1) g by (simp add: cram_num_of_minutes_def Let_def d)
  from cram_num_of_minutes_Inr [OF c] assms(1) show ?thesis using c by auto
qed




section \<open>Order of processing\<close>
































end
